theory Spec2Isabelle
  imports Complex_Main "HOL-Library.Monad_Syntax"
begin

section \<open>Dual variable warm start through a sparse QP: the data model\<close>

text \<open>
  The development follows
  \<^verbatim>\<open>modules/planning/open_space/trajectory_smoother/dual_variable_warm_start_osqp_interface.cc\<close>.

  Conventions of the embedding.
  \<^item> A call that aborts (a failed \<^verbatim>\<open>CHECK\<close>, a failed Eigen range assertion, a read
    past the end of an array) has the value \<open>None\<close>; a call that returns has the value
    \<open>Some\<close> of what it returns. The option monad threads this through the code.
  \<^item> \<^verbatim>\<open>double\<close> and \<^verbatim>\<open>c_float\<close> are the reals: the claims are about which
    coefficient is stored where, not about rounding.
  \<^item> C \<^verbatim>\<open>int\<close> is 32 bits wide: every sum and product of \<^verbatim>\<open>int\<close>s is written with
    the two's complement wrap-around (\<open>to_int\<close>). A loop counter that runs from 0 up to a
    bound is a natural number, the bound being the \<^verbatim>\<open>int\<close> the source compares it with.
  \<^item> Member names lose the trailing underscore of the source (\<^verbatim>\<open>horizon_\<close> is
    \<open>horizon\<close>).
\<close>

subsection \<open>Dense matrices (Eigen)\<close>

record 'a matrix =
  nrows :: nat
  ncols :: nat
  coeff :: "nat \<times> nat \<Rightarrow> 'a"

text \<open>\<^verbatim>\<open>M(r, c)\<close>, with Eigen's range assertion.\<close>

definition mat_at :: "'a matrix \<Rightarrow> nat \<Rightarrow> nat \<Rightarrow> 'a option" where
  "mat_at M r c = (if r < nrows M \<and> c < ncols M then Some (coeff M (r, c)) else None)"

text \<open>\<^verbatim>\<open>M(r, c) = v\<close>, with Eigen's range assertion.\<close>

definition mat_set :: "'a matrix \<Rightarrow> nat \<Rightarrow> nat \<Rightarrow> 'a \<Rightarrow> 'a matrix option" where
  "mat_set M r c v =
     (if r < nrows M \<and> c < ncols M then Some (M\<lparr>coeff := (coeff M)((r, c) := v)\<rparr>) else None)"

text \<open>\<^verbatim>\<open>Eigen::MatrixXd::Zero(rows, cols)\<close>; the sizes are signed in the source.\<close>

definition mat_zero :: "int \<Rightarrow> int \<Rightarrow> real matrix option" where
  "mat_zero r c =
     (if 0 \<le> r \<and> 0 \<le> c then Some \<lparr>nrows = nat r, ncols = nat c, coeff = (\<lambda>_. 0)\<rparr> else None)"

text \<open>\<^verbatim>\<open>M.block(startRow, startCol, blockRows, blockCols)\<close>.\<close>

definition block :: "'a matrix \<Rightarrow> int \<Rightarrow> int \<Rightarrow> int \<Rightarrow> int \<Rightarrow> 'a matrix option" where
  "block M sr sc br bc =
     (if 0 \<le> sr \<and> 0 \<le> sc \<and> 0 \<le> br \<and> 0 \<le> bc
         \<and> sr + br \<le> int (nrows M) \<and> sc + bc \<le> int (ncols M)
      then Some \<lparr>nrows = nat br, ncols = nat bc,
                 coeff = (\<lambda>(r, c). coeff M (nat sr + r, nat sc + c))\<rparr>
      else None)"

definition mat_transpose :: "'a matrix \<Rightarrow> 'a matrix" where
  "mat_transpose M = \<lparr>nrows = ncols M, ncols = nrows M, coeff = (\<lambda>(r, c). coeff M (c, r))\<rparr>"

definition mat_mul :: "real matrix \<Rightarrow> real matrix \<Rightarrow> real matrix option" where
  "mat_mul X Y =
     (if ncols X = nrows Y
      then Some \<lparr>nrows = nrows X, ncols = ncols Y,
                 coeff = (\<lambda>(r, c). \<Sum>k\<leftarrow>[0..<ncols X]. coeff X (r, k) * coeff Y (k, c))\<rparr>
      else None)"

definition mat_sub :: "real matrix \<Rightarrow> real matrix \<Rightarrow> real matrix option" where
  "mat_sub X Y =
     (if nrows X = nrows Y \<and> ncols X = ncols Y
      then Some \<lparr>nrows = nrows X, ncols = ncols X,
                 coeff = (\<lambda>rc. coeff X rc - coeff Y rc)\<rparr>
      else None)"

text \<open>A matrix written row by row, as the comma initialiser \<^verbatim>\<open>M << a, b, c, d\<close> fills it.\<close>

definition mat_of_rows :: "nat \<Rightarrow> nat \<Rightarrow> 'a list list \<Rightarrow> 'a matrix" where
  "mat_of_rows r c rows = \<lparr>nrows = r, ncols = c, coeff = (\<lambda>(i, j). rows ! i ! j)\<rparr>"

subsection \<open>C integers\<close>

definition int_max :: int where
  "int_max = 2147483647"

text \<open>The value of an \<^verbatim>\<open>int\<close> expression: 32 bits, two's complement.\<close>

definition to_int :: "int \<Rightarrow> int" where
  "to_int x = (x + 2147483648) mod 4294967296 - 2147483648"

text \<open>\<^verbatim>\<open>M.sum()\<close> on an integer matrix: the coefficients added up in storage order
  (column by column), in \<^verbatim>\<open>int\<close>.\<close>

definition mat_sum :: "int matrix \<Rightarrow> int" where
  "mat_sum M =
     fold (\<lambda>c s. fold (\<lambda>r s. to_int (s + coeff M (r, c))) [0..<nrows M] s) [0..<ncols M] 0"

text \<open>\<^verbatim>\<open>v[k]\<close> on a \<^verbatim>\<open>std::vector\<close> or a C array: a read outside the array has no
  defined behaviour in the source and is an abort here.\<close>

definition vec_at :: "'a list \<Rightarrow> nat \<Rightarrow> 'a option" where
  "vec_at xs k = (if k < length xs then Some (xs ! k) else None)"

text \<open>\<^verbatim>\<open>CHECK(cond)\<close>: fatal when the condition fails.\<close>

definition CHECK :: "bool \<Rightarrow> unit option" where
  "CHECK b = (if b then Some () else None)"

subsection \<open>Counting loops\<close>

text \<open>\<^verbatim>\<open>for (int i = lo; i < hi; ++i) body\<close>, the body updating the loop's state or
  aborting.\<close>

function for_loop :: "nat \<Rightarrow> nat \<Rightarrow> (nat \<Rightarrow> 's \<Rightarrow> 's option) \<Rightarrow> 's \<Rightarrow> 's option" where
  "for_loop i n body s =
     (if i < n then (case body i s of None \<Rightarrow> None | Some s' \<Rightarrow> for_loop (Suc i) n body s')
      else Some s)"
  by pat_completeness auto
termination
  by (relation "measure (\<lambda>(i, n, body, s). n - i)") auto

declare for_loop.simps [simp del]

subsection \<open>The object\<close>

record dual_variable_warm_start =
  ts :: real
  ego :: "real matrix"
  obstacles_edges_num :: "int matrix"
  obstacles_A :: "real matrix"
  obstacles_b :: "real matrix"
  xWS :: "real matrix"
  horizon :: int
  obstacles_num :: int
  w_ev :: real
  l_ev :: real
  g :: "real list"
  offset :: real
  obstacles_edges_sum :: int
  l_start_index :: int
  n_start_index :: int
  l_warm_up :: "real matrix"
  n_warm_up :: "real matrix"
  lambda_horizon :: int
  miu_horizon :: int
  num_of_variables :: int
  num_of_constraints :: int

text \<open>The constructor. The two \<^verbatim>\<open>CHECK\<close>s guard the casts of the \<^verbatim>\<open>size_t\<close>
  arguments to \<^verbatim>\<open>int\<close>. The planner configuration argument is not read.\<close>

definition construct ::
  "nat \<Rightarrow> real \<Rightarrow> real matrix \<Rightarrow> int matrix \<Rightarrow> nat \<Rightarrow> real matrix \<Rightarrow> real matrix \<Rightarrow> real matrix
     \<Rightarrow> dual_variable_warm_start option" where
  "construct horizon_arg ts_arg ego_arg edges_arg obstacles_num_arg A_arg b_arg xWS_arg =
     do {
       CHECK (int horizon_arg < int_max);
       let horizon' = int horizon_arg;
       CHECK (int obstacles_num_arg < int_max);
       let obstacles_num' = int obstacles_num_arg;
       e0 \<leftarrow> mat_at ego_arg 0 0;
       e1 \<leftarrow> mat_at ego_arg 1 0;
       e2 \<leftarrow> mat_at ego_arg 2 0;
       e3 \<leftarrow> mat_at ego_arg 3 0;
       let w_ev' = e1 + e3;
       let l_ev' = e0 + e2;
       let g' = [l_ev' / 2, w_ev' / 2, l_ev' / 2, w_ev' / 2];
       let offset' = (e0 + e2) / 2 - e2;
       let obstacles_edges_sum' = mat_sum edges_arg;
       let l_start_index' = 0;
       let n_start_index' =
             to_int (l_start_index' + to_int (obstacles_edges_sum' * to_int (horizon' + 1)));
       l_warm_up' \<leftarrow> mat_zero obstacles_edges_sum' (to_int (horizon' + 1));
       n_warm_up' \<leftarrow> mat_zero (to_int (4 * obstacles_num')) (to_int (horizon' + 1));
       let lambda_horizon' = to_int (obstacles_edges_sum' * to_int (horizon' + 1));
       let miu_horizon' = to_int (to_int (obstacles_num' * 4) * to_int (horizon' + 1));
       let num_of_variables' = to_int (lambda_horizon' + miu_horizon');
       let num_of_constraints' =
             to_int (to_int (to_int (3 * obstacles_num') * to_int (horizon' + 1))
                     + num_of_variables');
       Some \<lparr>ts = ts_arg, ego = ego_arg, obstacles_edges_num = edges_arg,
             obstacles_A = A_arg, obstacles_b = b_arg, xWS = xWS_arg,
             horizon = horizon', obstacles_num = obstacles_num',
             w_ev = w_ev', l_ev = l_ev', g = g', offset = offset',
             obstacles_edges_sum = obstacles_edges_sum',
             l_start_index = l_start_index', n_start_index = n_start_index',
             l_warm_up = l_warm_up', n_warm_up = n_warm_up',
             lambda_horizon = lambda_horizon', miu_horizon = miu_horizon',
             num_of_variables = num_of_variables',
             num_of_constraints = num_of_constraints'\<rparr>
     }"

text \<open>\<^verbatim>\<open>get_optimization_results\<close> copies the two stored matrices out.\<close>

definition get_optimization_results ::
  "dual_variable_warm_start \<Rightarrow> real matrix \<times> real matrix" where
  "get_optimization_results p = (l_warm_up p, n_warm_up p)"


section \<open>The objective assembler\<close>

text \<open>Lines 185--203: the Gram matrix of every obstacle, appended to \<^verbatim>\<open>P_tmp\<close> column
  by column. The loop state is \<^verbatim>\<open>(P_tmp, edges_counter)\<close>.\<close>

definition P_tmp_step ::
  "dual_variable_warm_start \<Rightarrow> nat \<Rightarrow> real list \<times> int \<Rightarrow> (real list \<times> int) option" where
  "P_tmp_step p j = (\<lambda>(P_tmp, edges_counter).
     do {
       current_edges_num \<leftarrow> mat_at (obstacles_edges_num p) j 0;
       Aj \<leftarrow> block (obstacles_A p) edges_counter 0 current_edges_num 2;
       Aj \<leftarrow> mat_mul Aj (mat_transpose Aj);
       CHECK (current_edges_num = int (ncols Aj));
       CHECK (current_edges_num = int (nrows Aj));
       P_tmp \<leftarrow> for_loop 0 (nat current_edges_num) (\<lambda>c.
                  for_loop 0 (nat current_edges_num) (\<lambda>r P_tmp.
                    do { v \<leftarrow> mat_at Aj r c; Some (P_tmp @ [v]) })) P_tmp;
       Some (P_tmp, to_int (edges_counter + current_edges_num))
     })"

text \<open>Lines 218--224: one column of an obstacle's block. The loop state is
  \<^verbatim>\<open>(P_indices, P_indptr, first_row_location)\<close>.\<close>

definition P_col_step ::
  "int \<Rightarrow> int \<Rightarrow> nat \<Rightarrow> int list \<times> int list \<times> int \<Rightarrow> (int list \<times> int list \<times> int) option" where
  "P_col_step l_index current_edges_num c = (\<lambda>(P_indices, P_indptr, first_row_location).
     do {
       let P_indptr = P_indptr @ [first_row_location];
       P_indices \<leftarrow> for_loop 0 (nat current_edges_num) (\<lambda>r P_indices.
                      Some (P_indices @ [to_int (int r + l_index)])) P_indices;
       Some (P_indices, P_indptr, to_int (first_row_location + current_edges_num))
     })"

text \<open>Lines 215--229: one obstacle of one step. The loop state is
  \<^verbatim>\<open>(P_indices, P_indptr, l_index, first_row_location, edges_counter)\<close>.\<close>

definition P_obstacle_step ::
  "dual_variable_warm_start \<Rightarrow> nat \<Rightarrow> int list \<times> int list \<times> int \<times> int \<times> int
     \<Rightarrow> (int list \<times> int list \<times> int \<times> int \<times> int) option" where
  "P_obstacle_step p j = (\<lambda>(P_indices, P_indptr, l_index, first_row_location, edges_counter).
     do {
       current_edges_num \<leftarrow> mat_at (obstacles_edges_num p) j 0;
       (P_indices, P_indptr, first_row_location) \<leftarrow>
          for_loop 0 (nat current_edges_num) (P_col_step l_index current_edges_num)
            (P_indices, P_indptr, first_row_location);
       Some (P_indices, P_indptr, to_int (l_index + current_edges_num), first_row_location,
             to_int (edges_counter + current_edges_num))
     })"

text \<open>Lines 208--230: one step of the horizon. The loop state is
  \<^verbatim>\<open>(P_data, P_indices, P_indptr, l_index, first_row_location, edges_counter)\<close>.\<close>

definition P_horizon_step ::
  "dual_variable_warm_start \<Rightarrow> real list \<Rightarrow> nat
     \<Rightarrow> real list \<times> int list \<times> int list \<times> int \<times> int \<times> int
     \<Rightarrow> (real list \<times> int list \<times> int list \<times> int \<times> int \<times> int) option" where
  "P_horizon_step p P_tmp i =
     (\<lambda>(P_data, P_indices, P_indptr, l_index, first_row_location, edges_counter).
     do {
       let edges_counter = 0;
       let P_data = P_data @ P_tmp;
       (P_indices, P_indptr, l_index, first_row_location, edges_counter) \<leftarrow>
          for_loop 0 (nat (obstacles_num p)) (P_obstacle_step p)
            (P_indices, P_indptr, l_index, first_row_location, edges_counter);
       Some (P_data, P_indices, P_indptr, l_index, first_row_location, edges_counter)
     })"

text \<open>\<^verbatim>\<open>assemble_P\<close> appends to three vectors that its only caller passes empty; the
  result is \<^verbatim>\<open>(P_data, P_indices, P_indptr)\<close>. The loop of lines 233--235 starts at
  \<^verbatim>\<open>lambda_horizon_\<close>, which the \<^verbatim>\<open>CHECK_EQ\<close> before it has made equal to a size.\<close>

definition assemble_P ::
  "dual_variable_warm_start \<Rightarrow> (real list \<times> int list \<times> int list) option" where
  "assemble_P p =
     do {
       (P_tmp, edges_counter) \<leftarrow> for_loop 0 (nat (obstacles_num p)) (P_tmp_step p) ([], 0);
       let l_index = l_start_index p;
       let first_row_location = 0;
       (P_data, P_indices, P_indptr, l_index, first_row_location, edges_counter) \<leftarrow>
          for_loop 0 (nat (to_int (horizon p + 1))) (P_horizon_step p P_tmp)
            ([], [], [], l_index, first_row_location, edges_counter);
       CHECK (int (length P_indptr) = lambda_horizon p);
       P_indptr \<leftarrow> for_loop (nat (lambda_horizon p)) (nat (to_int (num_of_variables p + 1)))
                     (\<lambda>i P_indptr. Some (P_indptr @ [first_row_location])) P_indptr;
       CHECK (length P_data = length P_indices);
       CHECK (int (length P_indptr) = to_int (num_of_variables p + 1));
       Some (P_data, P_indices, P_indptr)
     }"

section \<open>The constraint assembler\<close>

text \<open>Lines 286--302: the column of one \<open>\<lambda>\<close> variable. The loop state is
  \<^verbatim>\<open>(A_data, A_indices, A_indptr, r3_index, first_row_location)\<close>.\<close>

definition lambda_col_step ::
  "real matrix \<Rightarrow> real matrix \<Rightarrow> int \<Rightarrow> int \<Rightarrow> nat
     \<Rightarrow> real list \<times> int list \<times> int list \<times> int \<times> int
     \<Rightarrow> (real list \<times> int list \<times> int list \<times> int \<times> int) option" where
  "lambda_col_step r1_block r2_block r1_index r2_index k =
     (\<lambda>(A_data, A_indices, A_indptr, r3_index, first_row_location).
     do {
       v \<leftarrow> mat_at r1_block 0 k;
       let A_data = A_data @ [v];
       let A_indices = A_indices @ [r1_index];
       v \<leftarrow> mat_at r1_block 1 k;
       let A_data = A_data @ [v];
       let A_indices = A_indices @ [to_int (r1_index + 1)];
       v \<leftarrow> mat_at r2_block 0 k;
       let A_data = A_data @ [v];
       let A_indices = A_indices @ [r2_index];
       let A_data = A_data @ [1];
       let A_indices = A_indices @ [r3_index];
       let r3_index = to_int (r3_index + 1);
       let A_indptr = A_indptr @ [first_row_location];
       let first_row_location = to_int (first_row_location + 4);
       Some (A_data, A_indices, A_indptr, r3_index, first_row_location)
     })"

text \<open>Lines 272--308: one obstacle of one step. The loop state is
  \<^verbatim>\<open>(A_data, A_indices, A_indptr, edges_counter, r1_index, r2_index, r3_index,
  first_row_location)\<close>.\<close>

definition lambda_obstacle_step ::
  "dual_variable_warm_start \<Rightarrow> real matrix \<Rightarrow> real matrix \<Rightarrow> nat
     \<Rightarrow> real list \<times> int list \<times> int list \<times> int \<times> int \<times> int \<times> int \<times> int
     \<Rightarrow> (real list \<times> int list \<times> int list \<times> int \<times> int \<times> int \<times> int \<times> int) option" where
  "lambda_obstacle_step p R t_trans j =
     (\<lambda>(A_data, A_indices, A_indptr, edges_counter, r1_index, r2_index, r3_index,
        first_row_location).
     do {
       current_edges_num \<leftarrow> mat_at (obstacles_edges_num p) j 0;
       Aj \<leftarrow> block (obstacles_A p) edges_counter 0 current_edges_num 2;
       bj \<leftarrow> block (obstacles_b p) edges_counter 0 current_edges_num 1;
       r1_block \<leftarrow> mat_mul R (mat_transpose Aj);
       tA \<leftarrow> mat_mul t_trans (mat_transpose Aj);
       r2_block \<leftarrow> mat_sub tA (mat_transpose bj);
       (A_data, A_indices, A_indptr, r3_index, first_row_location) \<leftarrow>
          for_loop 0 (nat current_edges_num)
            (lambda_col_step r1_block r2_block r1_index r2_index)
            (A_data, A_indices, A_indptr, r3_index, first_row_location);
       Some (A_data, A_indices, A_indptr, to_int (edges_counter + current_edges_num),
             to_int (r1_index + 2), to_int (r2_index + 1), r3_index, first_row_location)
     })"

text \<open>Lines 260--309: one step of the horizon, \<open>\<lambda>\<close> part. The loop state is
  \<^verbatim>\<open>(A_data, A_indices, A_indptr, r1_index, r2_index, r3_index, first_row_location)\<close>;
  \<^verbatim>\<open>edges_counter\<close> is local to the step.\<close>

definition lambda_horizon_step ::
  "dual_variable_warm_start \<Rightarrow> nat
     \<Rightarrow> real list \<times> int list \<times> int list \<times> int \<times> int \<times> int \<times> int
     \<Rightarrow> (real list \<times> int list \<times> int list \<times> int \<times> int \<times> int \<times> int) option" where
  "lambda_horizon_step p i =
     (\<lambda>(A_data, A_indices, A_indptr, r1_index, r2_index, r3_index, first_row_location).
     do {
       let edges_counter = 0;
       x \<leftarrow> mat_at (xWS p) 0 i;
       y \<leftarrow> mat_at (xWS p) 1 i;
       heading \<leftarrow> mat_at (xWS p) 2 i;
       let R = mat_of_rows 2 2 [[cos heading, sin heading],
                                [sin heading, cos heading]];
       let t_trans = mat_of_rows 1 2 [[x + cos heading * offset p,
                                       y + sin heading * offset p]];
       (A_data, A_indices, A_indptr, edges_counter, r1_index, r2_index, r3_index,
          first_row_location) \<leftarrow>
          for_loop 0 (nat (obstacles_num p)) (lambda_obstacle_step p R t_trans)
            (A_data, A_indices, A_indptr, edges_counter, r1_index, r2_index, r3_index,
             first_row_location);
       Some (A_data, A_indices, A_indptr, r1_index, r2_index, r3_index, first_row_location)
     })"

text \<open>Lines 318--339: the column of one \<open>\<mu>\<close> variable. The loop state is
  \<^verbatim>\<open>(A_data, A_indices, A_indptr, r4_index, first_row_location)\<close>.\<close>

definition miu_col_step ::
  "dual_variable_warm_start \<Rightarrow> int \<Rightarrow> int \<Rightarrow> nat
     \<Rightarrow> real list \<times> int list \<times> int list \<times> int \<times> int
     \<Rightarrow> (real list \<times> int list \<times> int list \<times> int \<times> int) option" where
  "miu_col_step p r1_index r2_index k =
     (\<lambda>(A_data, A_indices, A_indptr, r4_index, first_row_location).
     do {
       let A_data = (if k < 2 then A_data @ [1] else A_data @ [- 1]);
       let A_indices = A_indices @ [to_int (r1_index + int k mod 2)];
       gk \<leftarrow> vec_at (g p) k;
       let A_data = A_data @ [gk];
       let A_indices = A_indices @ [r2_index];
       let A_data = A_data @ [1];
       let A_indices = A_indices @ [r4_index];
       let r4_index = to_int (r4_index + 1);
       let A_indptr = A_indptr @ [first_row_location];
       let first_row_location = to_int (first_row_location + 3);
       Some (A_data, A_indices, A_indptr, r4_index, first_row_location)
     })"

text \<open>Lines 317--344: one obstacle of one step, \<open>\<mu>\<close> part. The loop state is
  \<^verbatim>\<open>(A_data, A_indices, A_indptr, r1_index, r2_index, r4_index, first_row_location)\<close>.\<close>

definition miu_obstacle_step ::
  "dual_variable_warm_start \<Rightarrow> nat
     \<Rightarrow> real list \<times> int list \<times> int list \<times> int \<times> int \<times> int \<times> int
     \<Rightarrow> (real list \<times> int list \<times> int list \<times> int \<times> int \<times> int \<times> int) option" where
  "miu_obstacle_step p j =
     (\<lambda>(A_data, A_indices, A_indptr, r1_index, r2_index, r4_index, first_row_location).
     do {
       (A_data, A_indices, A_indptr, r4_index, first_row_location) \<leftarrow>
          for_loop 0 4 (miu_col_step p r1_index r2_index)
            (A_data, A_indices, A_indptr, r4_index, first_row_location);
       Some (A_data, A_indices, A_indptr, to_int (r1_index + 2), to_int (r2_index + 1),
             r4_index, first_row_location)
     })"

text \<open>\<^verbatim>\<open>assemble_constraint\<close>, again from three empty vectors to
  \<^verbatim>\<open>(A_data, A_indices, A_indptr)\<close>.\<close>

definition assemble_constraint ::
  "dual_variable_warm_start \<Rightarrow> (real list \<times> int list \<times> int list) option" where
  "assemble_constraint p =
     do {
       let r1_index = 0;
       let r2_index = to_int (to_int (2 * obstacles_num p) * to_int (horizon p + 1));
       let r3_index = to_int (to_int (3 * obstacles_num p) * to_int (horizon p + 1));
       let r4_index = to_int (to_int (to_int (3 * obstacles_num p) * to_int (horizon p + 1))
                              + lambda_horizon p);
       let first_row_location = 0;
       (A_data, A_indices, A_indptr, r1_index, r2_index, r3_index, first_row_location) \<leftarrow>
          for_loop 0 (nat (to_int (horizon p + 1))) (lambda_horizon_step p)
            ([], [], [], r1_index, r2_index, r3_index, first_row_location);
       let r1_index = 0;
       let r2_index = to_int (to_int (2 * obstacles_num p) * to_int (horizon p + 1));
       (A_data, A_indices, A_indptr, r1_index, r2_index, r4_index, first_row_location) \<leftarrow>
          for_loop 0 (nat (to_int (horizon p + 1))) (\<lambda>i.
            for_loop 0 (nat (obstacles_num p)) (miu_obstacle_step p))
            (A_data, A_indices, A_indptr, r1_index, r2_index, r4_index, first_row_location);
       let A_indptr = A_indptr @ [first_row_location];
       CHECK (length A_data = length A_indices);
       CHECK (int (length A_indptr) = to_int (num_of_variables p + 1));
       Some (A_data, A_indices, A_indptr)
     }"

section \<open>The solve entry point\<close>

subsection \<open>The solver's interface\<close>

text \<open>The QP solver is a library outside the repository. It enters the model as a
  parameter: a function from the problem data and the settings to the workspace that
  \<^verbatim>\<open>osqp_setup\<close> followed by \<^verbatim>\<open>osqp_solve\<close> leaves behind, of which the code reads
  \<^verbatim>\<open>info->status_val\<close> and \<^verbatim>\<open>solution->x\<close>.\<close>

record csc =
  csc_m :: int
  csc_n :: int
  csc_nzmax :: nat
  csc_x :: "real list"
  csc_i :: "int list"
  csc_p :: "int list"

definition csc_matrix :: "int \<Rightarrow> int \<Rightarrow> nat \<Rightarrow> real list \<Rightarrow> int list \<Rightarrow> int list \<Rightarrow> csc" where
  "csc_matrix m n nzmax x i p =
     \<lparr>csc_m = m, csc_n = n, csc_nzmax = nzmax, csc_x = x, csc_i = i, csc_p = p\<rparr>"

record osqp_data =
  data_n :: int
  data_m :: int
  data_P :: csc
  data_q :: "real list"
  data_A :: csc
  data_l :: "real list"
  data_u :: "real list"

text \<open>The five settings the code overwrites after \<^verbatim>\<open>osqp_set_default_settings\<close>; the
  others keep the library's defaults.\<close>

record osqp_settings =
  alpha :: real
  eps_abs :: real
  eps_rel :: real
  max_iter :: int
  polish :: bool

record osqp_workspace =
  status_val :: int
  solution_x :: "real list"

type_synonym osqp_solver = "osqp_data \<Rightarrow> osqp_settings \<Rightarrow> osqp_workspace"

text \<open>The structures the call obtains from the C allocator, directly or through the
  library, and the live ones as a list.\<close>

datatype resource = Settings | Data | Matrix_P | Matrix_A | Workspace

definition c_malloc :: "resource \<Rightarrow> resource list \<Rightarrow> resource list" where
  "c_malloc r live = live @ [r]"

definition c_free :: "resource \<Rightarrow> resource list \<Rightarrow> resource list" where
  "c_free r live = remove1 r live"

subsection \<open>\<^verbatim>\<open>optimize\<close>\<close>

text \<open>Lines 72--106 and 121--130: the linear term, the two sparse matrices, the bounds
  and the problem data. The arrays \<^verbatim>\<open>q\<close>, \<^verbatim>\<open>lb\<close> and \<^verbatim>\<open>ub\<close> are filled from
  index 0 upwards, one entry per iteration: the lists grow by that entry.\<close>

definition populate_data :: "dual_variable_warm_start \<Rightarrow> osqp_data option" where
  "populate_data p =
     do {
       let kNumParam = num_of_variables p;
       let kNumConst = num_of_constraints p;
       (P_data, P_indices, P_indptr) \<leftarrow> assemble_P p;
       q \<leftarrow> for_loop 0 (nat kNumParam) (\<lambda>i q. Some (q @ [0])) [];
       (A_data, A_indices, A_indptr) \<leftarrow> assemble_constraint p;
       (lb, ub) \<leftarrow> for_loop 0 (nat kNumConst) (\<lambda>i (lb, ub).
          do {
            let lb_i = 0;
            let lb_i = (if int i \<ge> to_int (to_int (2 * obstacles_num p) * to_int (horizon p + 1))
                           \<and> int i < to_int (to_int (3 * obstacles_num p) * to_int (horizon p + 1))
                        then 0 else lb_i);
            let ub_i = (if int i < to_int (to_int (2 * obstacles_num p) * to_int (horizon p + 1))
                        then 0 else 2 * 10 ^ 19);
            Some (lb @ [lb_i], ub @ [ub_i])
          }) ([], []);
       Some \<lparr>data_n = kNumParam, data_m = kNumConst,
             data_P = csc_matrix kNumParam kNumParam (length P_data) P_data P_indices P_indptr,
             data_q = q,
             data_A = csc_matrix kNumConst kNumParam (length A_data) A_data A_indices A_indptr,
             data_l = lb, data_u = ub\<rparr>
     }"

text \<open>Lines 109--118.\<close>

definition solver_settings :: osqp_settings where
  "solver_settings =
     \<lparr>alpha = 1, eps_abs = 1 / 10 ^ 5, eps_rel = 1 / 10 ^ 5, max_iter = 5000, polish = True\<rparr>"

text \<open>Lines 151--155 and 160--164: one entry of the solution copied into a result
  matrix. The loop state is the matrix and \<^verbatim>\<open>variable_index\<close>; the first line is the
  lower end of the range of the read.\<close>

definition extract_step ::
  "real list \<Rightarrow> nat \<Rightarrow> nat \<Rightarrow> real matrix \<times> int \<Rightarrow> (real matrix \<times> int) option" where
  "extract_step x i j = (\<lambda>(M, variable_index).
     do {
       CHECK (0 \<le> variable_index);
       v \<leftarrow> vec_at x (nat variable_index);
       M \<leftarrow> mat_set M j i v;
       Some (M, to_int (variable_index + 1))
     })"

text \<open>The result is the returned flag, the object after the call and the structures
  still allocated when the call returns.\<close>

definition optimize ::
  "osqp_solver \<Rightarrow> dual_variable_warm_start
     \<Rightarrow> (bool \<times> dual_variable_warm_start \<times> resource list) option" where
  "optimize solver p =
     do {
       data \<leftarrow> populate_data p;
       let live = c_malloc Settings [];
       let settings = solver_settings;
       let live = c_malloc Data live;
       let live = c_malloc Matrix_P live;
       let live = c_malloc Matrix_A live;
       let work = solver data settings;
       let live = c_malloc Workspace live;
       if status_val work \<noteq> 1 \<and> status_val work \<noteq> 2 then Some (False, p, live)
       else do {
         let variable_index = 0;
         (l_warm_up', variable_index) \<leftarrow>
            for_loop 0 (nat (to_int (horizon p + 1))) (\<lambda>i.
              for_loop 0 (nat (obstacles_edges_sum p)) (extract_step (solution_x work) i))
              (l_warm_up p, variable_index);
         (n_warm_up', variable_index) \<leftarrow>
            for_loop 0 (nat (to_int (horizon p + 1))) (\<lambda>i.
              for_loop 0 (nat (to_int (4 * obstacles_num p))) (extract_step (solution_x work) i))
              (n_warm_up p, variable_index);
         let live = c_free Workspace live;
         let live = c_free Matrix_A live;
         let live = c_free Matrix_P live;
         let live = c_free Data live;
         let live = c_free Settings live;
         Some (True, p\<lparr>l_warm_up := l_warm_up', n_warm_up := n_warm_up'\<rparr>, live)
       }
     }"

section \<open>Vocabulary of the claims\<close>

subsection \<open>Valid construction inputs\<close>

text \<open>The edge count of obstacle \<open>j\<close>, and the number of edges of the obstacles before it:
  the row of \<^verbatim>\<open>obstacles_A\<close> and \<^verbatim>\<open>obstacles_b\<close> at which the block of obstacle \<open>j\<close>
  starts. \<open>edges_before E N\<close> is the total edge count of \<open>N\<close> obstacles.\<close>

definition edges_num :: "int matrix \<Rightarrow> nat \<Rightarrow> int" where
  "edges_num E j = coeff E (j, 0)"

definition edges_before :: "int matrix \<Rightarrow> nat \<Rightarrow> int" where
  "edges_before E j = (\<Sum>j'<j. edges_num E j')"

text \<open>The construction inputs the interface description admits: a 4 x 1 vector of vehicle
  extents, one positive edge count per obstacle, the half-plane coefficients stacked with
  one row per edge, a trajectory with one column \<open>(x, y, heading, \<dots>)\<close> per step, and a
  number of constraints that an \<^verbatim>\<open>int\<close> holds.\<close>

definition valid_input ::
  "nat \<Rightarrow> real matrix \<Rightarrow> int matrix \<Rightarrow> nat \<Rightarrow> real matrix \<Rightarrow> real matrix \<Rightarrow> real matrix \<Rightarrow> bool" where
  "valid_input h ego_arg E N A b x \<longleftrightarrow>
     int h < int_max \<and> int N < int_max
     \<and> nrows ego_arg = 4 \<and> ncols ego_arg = 1
     \<and> nrows E = N \<and> ncols E = 1 \<and> (\<forall>j<N. 0 < edges_num E j)
     \<and> int (nrows A) = edges_before E N \<and> ncols A = 2
     \<and> int (nrows b) = edges_before E N \<and> ncols b = 1
     \<and> 3 \<le> nrows x \<and> ncols x = h + 1
     \<and> 3 * int N * (int h + 1) + (edges_before E N + 4 * int N) * (int h + 1) \<le> int_max"

text \<open>The number of entries the two assemblers store: \<open>e\<^sub>j\<^sup>2\<close> per obstacle and step in the
  objective matrix, 4 per \<open>\<lambda>\<close> variable and 3 per \<open>\<mu>\<close> variable in the constraint matrix.
  The assemblers count them in \<^verbatim>\<open>int\<close>, and \<open>entries_fit\<close> says that an \<^verbatim>\<open>int\<close> holds both
  counts: a valid input for the assemblers is a valid construction input with
  \<open>entries_fit\<close>.\<close>

definition objective_entries :: "nat \<Rightarrow> int matrix \<Rightarrow> nat \<Rightarrow> int" where
  "objective_entries h E N = (int h + 1) * (\<Sum>j<N. edges_num E j * edges_num E j)"

definition constraint_entries :: "nat \<Rightarrow> int matrix \<Rightarrow> nat \<Rightarrow> int" where
  "constraint_entries h E N =
     4 * (edges_before E N * (int h + 1)) + 3 * (4 * int N * (int h + 1))"

definition entries_fit :: "nat \<Rightarrow> int matrix \<Rightarrow> nat \<Rightarrow> bool" where
  "entries_fit h E N \<longleftrightarrow>
     objective_entries h E N \<le> int_max \<and> constraint_entries h E N \<le> int_max"

subsection \<open>Compressed sparse columns\<close>

text \<open>A matrix in CSC form is a value array, a row-index array and a column-pointer array.
  For a list of columns, each the list of its stored entries, \<open>starts\<close> are the offsets at
  which the columns begin in the concatenation and \<open>col_ptr\<close> is the full pointer array,
  the offsets followed by the total count.\<close>

definition starts :: "'a list list \<Rightarrow> int list" where
  "starts cs = map (\<lambda>k. int (length (concat (take k cs)))) [0..<length cs]"

definition col_ptr :: "'a list list \<Rightarrow> int list" where
  "col_ptr cs = starts cs @ [int (length (concat cs))]"

text \<open>Reading a column back from the three arrays: the stored \<open>(row, value)\<close> entries of
  column \<open>c\<close> are those at the positions from \<open>indptr[c]\<close> up to \<open>indptr[c + 1]\<close>.\<close>

definition csc_column :: "real list \<times> int list \<times> int list \<Rightarrow> nat \<Rightarrow> (int \<times> real) list" where
  "csc_column M c = (case M of (data, indices, indptr) \<Rightarrow>
     (let a = nat (indptr ! c); b = nat (indptr ! Suc c)
      in zip (take (b - a) (drop a indices)) (take (b - a) (drop a data))))"

subsection \<open>The objective matrix, column by column\<close>

text \<open>The row indices of one column of a block whose first \<open>\<lambda>\<close> index is \<open>l\<close> and whose
  obstacle has \<open>e\<close> edges.\<close>

definition P_col_rows :: "int \<Rightarrow> int \<Rightarrow> int list" where
  "P_col_rows l e = map (\<lambda>r. int r + l) [0..<nat e]"

text \<open>The Gram matrix of obstacle \<open>j\<close>: entry \<open>(r, c)\<close> is the inner product of the normals
  of its edges \<open>r\<close> and \<open>c\<close>, rows \<open>r\<close> and \<open>c\<close> of its block of \<^verbatim>\<open>obstacles_A\<close>.\<close>

definition gram :: "dual_variable_warm_start \<Rightarrow> nat \<Rightarrow> nat \<Rightarrow> nat \<Rightarrow> real" where
  "gram p j r c =
     (let off = nat (edges_before (obstacles_edges_num p) j)
      in coeff (obstacles_A p) (off + r, 0) * coeff (obstacles_A p) (off + c, 0)
         + coeff (obstacles_A p) (off + r, 1) * coeff (obstacles_A p) (off + c, 1))"

text \<open>The columns of the objective matrix as lists of values and lists of row indices:
  per obstacle, per step, and for the whole matrix, whose \<open>\<mu>\<close> columns are empty.\<close>

definition P_obstacle_vals :: "dual_variable_warm_start \<Rightarrow> nat \<Rightarrow> real list list" where
  "P_obstacle_vals p j =
     (let e = nat (edges_num (obstacles_edges_num p) j)
      in map (\<lambda>c. map (\<lambda>r. gram p j r c) [0..<e]) [0..<e])"

definition P_obstacle_rows :: "dual_variable_warm_start \<Rightarrow> nat \<Rightarrow> nat \<Rightarrow> int list list" where
  "P_obstacle_rows p i j =
     (let e = edges_num (obstacles_edges_num p) j;
          l = int i * obstacles_edges_sum p + edges_before (obstacles_edges_num p) j
      in replicate (nat e) (P_col_rows l e))"

definition P_step_vals :: "dual_variable_warm_start \<Rightarrow> real list list" where
  "P_step_vals p = concat (map (P_obstacle_vals p) [0..<nat (obstacles_num p)])"

definition P_step_rows :: "dual_variable_warm_start \<Rightarrow> nat \<Rightarrow> int list list" where
  "P_step_rows p i = concat (map (P_obstacle_rows p i) [0..<nat (obstacles_num p)])"

definition P_vals :: "dual_variable_warm_start \<Rightarrow> real list list" where
  "P_vals p = concat (map (\<lambda>i. P_step_vals p) [0..<nat (horizon p + 1)])
                @ replicate (nat (miu_horizon p)) []"

definition P_rows :: "dual_variable_warm_start \<Rightarrow> int list list" where
  "P_rows p = concat (map (P_step_rows p) [0..<nat (horizon p + 1)])
                @ replicate (nat (miu_horizon p)) []"

subsection \<open>Objects built from valid inputs\<close>

text \<open>What the assemblers and the solve entry point rely on in the object.\<close>

definition object_ok :: "dual_variable_warm_start \<Rightarrow> bool" where
  "object_ok p \<longleftrightarrow>
     0 \<le> horizon p \<and> horizon p < int_max \<and> 0 \<le> obstacles_num p
     \<and> nrows (obstacles_edges_num p) = nat (obstacles_num p) \<and> ncols (obstacles_edges_num p) = 1
     \<and> (\<forall>j<nat (obstacles_num p). 0 < edges_num (obstacles_edges_num p) j)
     \<and> int (nrows (obstacles_A p)) = obstacles_edges_sum p \<and> ncols (obstacles_A p) = 2
     \<and> int (nrows (obstacles_b p)) = obstacles_edges_sum p \<and> ncols (obstacles_b p) = 1
     \<and> 3 \<le> nrows (xWS p) \<and> int (ncols (xWS p)) = horizon p + 1
     \<and> length (g p) = 4
     \<and> obstacles_edges_sum p = edges_before (obstacles_edges_num p) (nat (obstacles_num p))
     \<and> l_start_index p = 0
     \<and> lambda_horizon p = obstacles_edges_sum p * (horizon p + 1)
     \<and> miu_horizon p = 4 * obstacles_num p * (horizon p + 1)
     \<and> num_of_variables p = lambda_horizon p + miu_horizon p
     \<and> num_of_constraints p = 3 * obstacles_num p * (horizon p + 1) + num_of_variables p
     \<and> num_of_constraints p \<le> int_max
     \<and> int (nrows (l_warm_up p)) = obstacles_edges_sum p
     \<and> int (ncols (l_warm_up p)) = horizon p + 1
     \<and> int (nrows (n_warm_up p)) = 4 * obstacles_num p
     \<and> int (ncols (n_warm_up p)) = horizon p + 1"

subsection \<open>The constraint matrix, column by column\<close>

text \<open>The column of the \<open>\<lambda>\<close> variable of step \<open>i\<close>, obstacle \<open>j\<close> and edge \<open>k\<close> as the code
  assembles it: two group-1 entries, the group-2 entry, and the 1 of its group-3 row.\<close>

definition lambda_col :: "dual_variable_warm_start \<Rightarrow> nat \<Rightarrow> nat \<Rightarrow> nat \<Rightarrow> (int \<times> real) list" where
  "lambda_col p i j k =
     (let heading = coeff (xWS p) (2, i);
          tx = coeff (xWS p) (0, i) + cos heading * offset p;
          ty = coeff (xWS p) (1, i) + sin heading * offset p;
          row = nat (edges_before (obstacles_edges_num p) j) + k;
          a0 = coeff (obstacles_A p) (row, 0);
          a1 = coeff (obstacles_A p) (row, 1);
          bk = coeff (obstacles_b p) (row, 0);
          pair = int i * obstacles_num p + int j
      in [(2 * pair, cos heading * a0 + sin heading * a1),
          (2 * pair + 1, sin heading * a0 + cos heading * a1),
          (2 * obstacles_num p * (horizon p + 1) + pair, tx * a0 + ty * a1 - bk),
          (3 * obstacles_num p * (horizon p + 1) + int i * obstacles_edges_sum p
             + edges_before (obstacles_edges_num p) j + int k, 1)])"

text \<open>The column of the \<open>\<mu>\<close> variable of step \<open>i\<close>, obstacle \<open>j\<close> and corner \<open>k\<close> as the code
  assembles it: one group-1 entry, the group-2 entry, and the 1 of its group-4 row.\<close>

definition miu_col :: "dual_variable_warm_start \<Rightarrow> nat \<Rightarrow> nat \<Rightarrow> nat \<Rightarrow> (int \<times> real) list" where
  "miu_col p i j k =
     (let pair = int i * obstacles_num p + int j
      in [(2 * pair + int k mod 2, if k < 2 then 1 else - 1),
          (2 * obstacles_num p * (horizon p + 1) + pair, g p ! k),
          (3 * obstacles_num p * (horizon p + 1) + lambda_horizon p + 4 * pair + int k, 1)])"

text \<open>All columns of the constraint matrix: the \<open>\<lambda>\<close> columns step by step and obstacle by
  obstacle, then the \<open>\<mu>\<close> columns in the same order.\<close>

definition A_lambda_obstacle ::
  "dual_variable_warm_start \<Rightarrow> nat \<Rightarrow> nat \<Rightarrow> (int \<times> real) list list" where
  "A_lambda_obstacle p i j =
     map (lambda_col p i j) [0..<nat (edges_num (obstacles_edges_num p) j)]"

definition A_lambda_step :: "dual_variable_warm_start \<Rightarrow> nat \<Rightarrow> (int \<times> real) list list" where
  "A_lambda_step p i = concat (map (A_lambda_obstacle p i) [0..<nat (obstacles_num p)])"

definition A_miu_step :: "dual_variable_warm_start \<Rightarrow> nat \<Rightarrow> (int \<times> real) list list" where
  "A_miu_step p i = concat (map (\<lambda>j. map (miu_col p i j) [0..<4]) [0..<nat (obstacles_num p)])"

definition A_cols :: "dual_variable_warm_start \<Rightarrow> (int \<times> real) list list" where
  "A_cols p = concat (map (A_lambda_step p) [0..<nat (horizon p + 1)])
              @ concat (map (A_miu_step p) [0..<nat (horizon p + 1)])"

text \<open>The value array and the row-index array of a list of columns of \<open>(row, value)\<close>
  entries.\<close>

definition col_vals :: "(int \<times> real) list list \<Rightarrow> real list" where
  "col_vals cs = concat (map (map snd) cs)"

definition col_rows :: "(int \<times> real) list list \<Rightarrow> int list" where
  "col_rows cs = concat (map (map fst) cs)"

subsection \<open>The canonical variable ordering\<close>

text \<open>The index of the \<open>\<lambda>\<close> variable of step \<open>i\<close>, obstacle \<open>j\<close> and edge \<open>k\<close>, and the index
  of the \<open>\<mu>\<close> variable of step \<open>i\<close>, obstacle \<open>j\<close> and corner \<open>k\<close>; the \<open>\<lambda>\<close> block comes first.\<close>

definition lambda_index :: "dual_variable_warm_start \<Rightarrow> nat \<Rightarrow> nat \<Rightarrow> nat \<Rightarrow> nat" where
  "lambda_index p i j k =
     i * nat (obstacles_edges_sum p) + nat (edges_before (obstacles_edges_num p) j) + k"

definition miu_index :: "dual_variable_warm_start \<Rightarrow> nat \<Rightarrow> nat \<Rightarrow> nat \<Rightarrow> nat" where
  "miu_index p i j k =
     nat (lambda_horizon p) + i * (4 * nat (obstacles_num p)) + 4 * j + k"

text \<open>The two entry counts of an object are within \<^verbatim>\<open>int\<close>.\<close>

definition entries_ok :: "dual_variable_warm_start \<Rightarrow> bool" where
  "entries_ok p \<longleftrightarrow>
     int (length (concat (P_rows p))) \<le> int_max \<and> int (length (concat (A_cols p))) \<le> int_max"

subsection \<open>The extraction of the solution\<close>

text \<open>The matrix \<open>M\<close> after the extraction loops have run over the columns before \<open>i\<close> and
  the first \<open>j\<close> rows of column \<open>i\<close>, reading \<open>x\<close> from \<open>start\<close> on, \<open>rws\<close> entries per
  column.\<close>

definition extracted :: "real list \<Rightarrow> nat \<Rightarrow> nat \<Rightarrow> real matrix \<Rightarrow> nat \<Rightarrow> nat \<Rightarrow> real matrix" where
  "extracted x start rws M i j =
     M\<lparr>coeff := (\<lambda>(r, c). if (c < i \<and> r < rws) \<or> (c = i \<and> r < j)
                           then x ! (start + c * rws + r) else coeff M (r, c))\<rparr>"

section \<open>A small instance\<close>

text \<open>Two steps (horizon 1) and two obstacles, a triangle and a single half-plane. The
  vehicle stands at the origin with heading 0, then at (1, 0) with heading \<open>pi / 2\<close>; it
  reaches 3 to the front and 1 to the rear, left and right.\<close>

definition demo_ego :: "real matrix" where
  "demo_ego = mat_of_rows 4 1 [[3], [1], [1], [1]]"

definition demo_edges :: "int matrix" where
  "demo_edges = mat_of_rows 2 1 [[3], [1]]"

definition demo_A :: "real matrix" where
  "demo_A = mat_of_rows 4 2 [[1, 0], [0, 1], [- 1, - 1], [0, 1]]"

definition demo_b :: "real matrix" where
  "demo_b = mat_of_rows 4 1 [[6], [2], [- 7], [9]]"

definition demo_xWS :: "real matrix" where
  "demo_xWS = mat_of_rows 3 2 [[0, 1], [0, 0], [0, pi / 2]]"

section \<open>Vocabulary of the claims on the bounds, the rotation and the solver\<close>

text \<open>The bounds \<open>(l[i], u[i])\<close> of row \<open>i\<close> in the problem data that \<^verbatim>\<open>optimize\<close> hands
  to the solver, for the object a constructor call returns.\<close>

definition row_bounds :: "dual_variable_warm_start option \<Rightarrow> nat \<Rightarrow> (real \<times> real) option" where
  "row_bounds po i =
     do {
       p \<leftarrow> po;
       d \<leftarrow> populate_data p;
       l \<leftarrow> vec_at (data_l d) i;
       u \<leftarrow> vec_at (data_u d) i;
       Some (l, u)
     }"

text \<open>The planar rotation by \<open>\<theta>\<close> as the specification writes it, and the two group-1
  rows the specification states for the \<open>\<lambda>\<close> columns of step \<open>i\<close> and obstacle \<open>j\<close>:
  \<open>R(heading\<^sub>i) A\<^sub>j\<^sup>T\<close>.\<close>

definition spec_rotation :: "real \<Rightarrow> real matrix" where
  "spec_rotation \<theta> = mat_of_rows 2 2 [[cos \<theta>, - sin \<theta>], [sin \<theta>, cos \<theta>]]"

definition spec_group1 :: "dual_variable_warm_start \<Rightarrow> nat \<Rightarrow> nat \<Rightarrow> real matrix option" where
  "spec_group1 p i j =
     do {
       heading \<leftarrow> mat_at (xWS p) 2 i;
       Aj \<leftarrow> block (obstacles_A p) (edges_before (obstacles_edges_num p) j) 0
               (edges_num (obstacles_edges_num p) j) 2;
       mat_mul (spec_rotation heading) (mat_transpose Aj)
     }"

text \<open>The entry the specification states for the \<open>\<lambda>\<close> variable of step \<open>i\<close>, obstacle \<open>j\<close>
  and edge \<open>k\<close> in the group-1 row \<open>r\<close> (0 or 1) of that step and obstacle, for the object a
  constructor call returns.\<close>

definition spec_group1_entry ::
  "dual_variable_warm_start option \<Rightarrow> nat \<Rightarrow> nat \<Rightarrow> nat \<Rightarrow> nat \<Rightarrow> real option" where
  "spec_group1_entry po i j k r =
     do {
       p \<leftarrow> po;
       B \<leftarrow> spec_group1 p i j;
       mat_at B r k
     }"

text \<open>The same entry of the block \<^verbatim>\<open>R' * A'\<close> that the comment at the head of
  \<^verbatim>\<open>assemble_constraint\<close> gives as the layout of group 1: the transposed rotation
  applied to \<open>A\<^sub>j\<^sup>T\<close>.\<close>

definition layout_group1 :: "dual_variable_warm_start \<Rightarrow> nat \<Rightarrow> nat \<Rightarrow> real matrix option" where
  "layout_group1 p i j =
     do {
       heading \<leftarrow> mat_at (xWS p) 2 i;
       Aj \<leftarrow> block (obstacles_A p) (edges_before (obstacles_edges_num p) j) 0
               (edges_num (obstacles_edges_num p) j) 2;
       mat_mul (mat_transpose (spec_rotation heading)) (mat_transpose Aj)
     }"

definition layout_group1_entry ::
  "dual_variable_warm_start option \<Rightarrow> nat \<Rightarrow> nat \<Rightarrow> nat \<Rightarrow> nat \<Rightarrow> real option" where
  "layout_group1_entry po i j k r =
     do {
       p \<leftarrow> po;
       B \<leftarrow> layout_group1 p i j;
       mat_at B r k
     }"

text \<open>The entry the constraint assembler stores there: the value at row
  \<open>2 (i obstacles + j) + r\<close> in the column of the variable, read back from the three
  arrays; \<open>None\<close> when the column stores no entry in that row.\<close>

definition group1_entry ::
  "dual_variable_warm_start option \<Rightarrow> nat \<Rightarrow> nat \<Rightarrow> nat \<Rightarrow> nat \<Rightarrow> real option" where
  "group1_entry po i j k r =
     do {
       p \<leftarrow> po;
       M \<leftarrow> assemble_constraint p;
       map_of (csc_column M (lambda_index p i j k))
         (2 * (int i * obstacles_num p + int j) + int r)
     }"

text \<open>Two solvers for the instances: one reports a primal infeasible problem (status
  \<open>-3\<close>), one reports success and returns the solution \<open>x[k] = k\<close>.\<close>

definition infeasible_solver :: osqp_solver where
  "infeasible_solver d s = \<lparr>status_val = - 3, solution_x = []\<rparr>"

definition counting_solver :: osqp_solver where
  "counting_solver d s = \<lparr>status_val = 1, solution_x = map real [0..<nat (data_n d)]\<rparr>"

section \<open>The constructor\<close>

lemma to_int_id: "- 2147483648 \<le> x \<Longrightarrow> x \<le> int_max \<Longrightarrow> to_int x = x"
  by (simp add: to_int_def int_max_def)

lemma to_int_add_left: "to_int (to_int a + b) = to_int (a + b)"
  unfolding to_int_def by (simp add: mod_simps ac_simps)

lemma fold_to_int:
  "fold (\<lambda>r s. to_int (s + f r)) [0..<n] (to_int s0) = to_int (s0 + (\<Sum>r<n. f r))"
proof (induction n)
  case 0 show ?case by simp
next
  case (Suc n)
  then show ?case by (simp add: to_int_add_left add.assoc)
qed

lemma mat_sum_column:
  assumes "ncols E = 1"
  shows "mat_sum E = to_int (edges_before E (nrows E))"
proof -
  have "mat_sum E = fold (\<lambda>r s. to_int (s + coeff E (r, 0))) [0..<nrows E] (to_int 0)"
    using assms by (simp add: mat_sum_def to_int_def)
  also have "\<dots> = to_int (0 + (\<Sum>r<nrows E. coeff E (r, 0)))"
    by (rule fold_to_int)
  finally show ?thesis by (simp add: edges_before_def edges_num_def)
qed

lemma edges_before_nonneg: "\<forall>j<N. 0 < edges_num E j \<Longrightarrow> j \<le> N \<Longrightarrow> 0 \<le> edges_before E j"
  unfolding edges_before_def by (intro sum_nonneg) (auto simp: less_imp_le)

lemma construct_valid:
  assumes v: "valid_input h ego_arg E N A b x"
  shows "construct h t ego_arg E N A b x =
     Some \<lparr>ts = t, ego = ego_arg, obstacles_edges_num = E,
             obstacles_A = A, obstacles_b = b, xWS = x,
             horizon = int h, obstacles_num = int N,
             w_ev = coeff ego_arg (1, 0) + coeff ego_arg (3, 0),
             l_ev = coeff ego_arg (0, 0) + coeff ego_arg (2, 0),
             g = [(coeff ego_arg (0, 0) + coeff ego_arg (2, 0)) / 2,
                  (coeff ego_arg (1, 0) + coeff ego_arg (3, 0)) / 2,
                  (coeff ego_arg (0, 0) + coeff ego_arg (2, 0)) / 2,
                  (coeff ego_arg (1, 0) + coeff ego_arg (3, 0)) / 2],
             offset = (coeff ego_arg (0, 0) + coeff ego_arg (2, 0)) / 2 - coeff ego_arg (2, 0),
             obstacles_edges_sum = edges_before E N,
             l_start_index = 0,
             n_start_index = edges_before E N * (int h + 1),
             l_warm_up = \<lparr>nrows = nat (edges_before E N), ncols = h + 1, coeff = (\<lambda>_. 0)\<rparr>,
             n_warm_up = \<lparr>nrows = 4 * N, ncols = h + 1, coeff = (\<lambda>_. 0)\<rparr>,
             lambda_horizon = edges_before E N * (int h + 1),
             miu_horizon = 4 * int N * (int h + 1),
             num_of_variables = edges_before E N * (int h + 1) + 4 * int N * (int h + 1),
             num_of_constraints =
               3 * int N * (int h + 1)
               + (edges_before E N * (int h + 1) + 4 * int N * (int h + 1))\<rparr>"
proof -
  define S where "S = edges_before E N"
  define H where "H = int h + 1"
  define n where "n = int N"
  have S0: "0 \<le> S" using v unfolding S_def valid_input_def by (auto intro: edges_before_nonneg)
  have H1: "1 \<le> H" by (simp add: H_def)
  have n0: "0 \<le> n" by (simp add: n_def)
  have m: "3 * n * H + (S + 4 * n) * H \<le> int_max"
    using v by (simp add: valid_input_def S_def H_def n_def)
  have SH: "S \<le> S * H" using S0 H1 by (simp add: mult_le_cancel_left1)
  have nH: "n \<le> n * H" using n0 H1 by (simp add: mult_le_cancel_left1)
  have SH0: "0 \<le> S * H" using S0 H1 by simp
  have nH0: "0 \<le> n * H" using n0 H1 by simp
  have hH: "H \<le> int_max" using v by (simp add: valid_input_def H_def)
  have e1: "to_int H = H" using H1 hH by (intro to_int_id) auto
  have e2: "to_int S = S" using S0 SH nH0 SH0 m by (intro to_int_id) (auto simp: algebra_simps)
  have e3: "to_int (S * H) = S * H" using SH0 nH0 m by (intro to_int_id) (auto simp: algebra_simps)
  have e4: "to_int (4 * n) = 4 * n" using n0 nH nH0 SH0 m by (intro to_int_id) (auto simp: algebra_simps)
  have e4': "to_int (n * 4) = 4 * n" using e4 by (simp add: mult.commute)
  have e5: "to_int (4 * n * H) = 4 * n * H" using nH0 SH0 m by (intro to_int_id) (auto simp: algebra_simps)
  have e6: "to_int (S * H + 4 * n * H) = S * H + 4 * n * H"
    using nH0 SH0 m by (intro to_int_id) (auto simp: algebra_simps)
  have e7: "to_int (3 * n) = 3 * n" using n0 nH nH0 SH0 m by (intro to_int_id) (auto simp: algebra_simps)
  have e8: "to_int (3 * n * H) = 3 * n * H" using nH0 SH0 m by (intro to_int_id) (auto simp: algebra_simps)
  have e9: "to_int (3 * n * H + (S * H + 4 * n * H)) = 3 * n * H + (S * H + 4 * n * H)"
    using nH0 SH0 m by (intro to_int_id) (auto simp: algebra_simps)
  have sum: "mat_sum E = S"
    using v e2 by (simp add: mat_sum_column valid_input_def S_def)
  have ego_at: "mat_at ego_arg 0 0 = Some (coeff ego_arg (0, 0))"
    "mat_at ego_arg 1 0 = Some (coeff ego_arg (1, 0))"
    "mat_at ego_arg 2 0 = Some (coeff ego_arg (2, 0))"
    "mat_at ego_arg 3 0 = Some (coeff ego_arg (3, 0))"
    using v by (simp_all add: valid_input_def mat_at_def)
  have chk: "CHECK (int h < int_max) = Some ()" "CHECK (int N < int_max) = Some ()"
    using v by (simp_all add: valid_input_def CHECK_def)
  have z1: "mat_zero S H = Some \<lparr>nrows = nat S, ncols = h + 1, coeff = (\<lambda>_. 0)\<rparr>"
    using S0 H1 by (simp add: mat_zero_def H_def nat_add_distrib)
  have z2: "mat_zero (4 * n) H = Some \<lparr>nrows = 4 * N, ncols = h + 1, coeff = (\<lambda>_. 0)\<rparr>"
    using n0 H1 by (simp add: mat_zero_def H_def n_def nat_add_distrib nat_mult_distrib)
  have e9': "to_int (7 * (H * n) + S * H) = 7 * (H * n) + S * H"
    using nH0 SH0 m by (intro to_int_id) (auto simp: algebra_simps)
  show ?thesis
    unfolding construct_def chk ego_at sum
    by (simp add: Let_def e1 e2 e3 e4 e4' e5 e6 e7 e8 e9 e9' z1 z2 flip: S_def H_def n_def)
qed

section \<open>Counting loops\<close>

text \<open>A loop whose body returns at every index and keeps an invariant returns, with the
  invariant at the final index.\<close>

lemma for_loop_rule:
  assumes "I i s"
    and "\<And>k t. i \<le> k \<Longrightarrow> k < n \<Longrightarrow> I k t \<Longrightarrow> \<exists>t'. body k t = Some t' \<and> I (Suc k) t'"
    and "i \<le> n"
  shows "\<exists>t. for_loop i n body s = Some t \<and> I n t"
  using assms
proof (induction i n body s rule: for_loop.induct)
  case (1 i n body s)
  show ?case
  proof (cases "i < n")
    case True
    from "1.prems"(2)[of i s] True "1.prems"(1) obtain s' where s': "body i s = Some s'" "I (Suc i) s'"
      by auto
    have "\<exists>t. for_loop (Suc i) n body s' = Some t \<and> I n t"
      using "1.IH"[OF True s'(1) s'(2)] "1.prems"(2) True by auto
    then show ?thesis using True s' by (subst for_loop.simps) simp
  next
    case False
    then have "i = n" using "1.prems"(3) by simp
    then show ?thesis using "1.prems"(1) by (subst for_loop.simps) simp
  qed
qed

lemma for_loop_closed:
  assumes "\<And>k. i \<le> k \<Longrightarrow> k < n \<Longrightarrow> body k (F k) = Some (F (Suc k))" and "i \<le> n"
  shows "for_loop i n body (F i) = Some (F n)"
proof -
  have "\<exists>t. for_loop i n body (F i) = Some t \<and> t = F n"
    by (rule for_loop_rule[where I = "\<lambda>k t. t = F k"]) (use assms in auto)
  then show ?thesis by simp
qed

lemma for_loop_empty: "n \<le> i \<Longrightarrow> for_loop i n body s = Some s"
  by (subst for_loop.simps) simp

lemma for_loop_append:
  "for_loop 0 n (\<lambda>k xs. Some (xs @ [f k])) xs = Some (xs @ map f [0..<n])"
  using for_loop_closed[where F = "\<lambda>k. xs @ map f [0..<k]" and i = 0 and n = n
      and body = "\<lambda>k xs. Some (xs @ [f k])"]
  by simp

lemma for_loop_append_const:
  assumes "a \<le> b"
  shows "for_loop a b (\<lambda>k xs. Some (xs @ [v])) xs = Some (xs @ replicate (b - a) v)"
proof -
  have "for_loop a b (\<lambda>k xs. Some (xs @ [v])) (xs @ replicate (a - a) v) = Some (xs @ replicate (b - a) v)"
    by (rule for_loop_closed[where F = "\<lambda>k. xs @ replicate (k - a) v"])
       (use assms in \<open>auto simp: Suc_diff_le replicate_append_same\<close>)
  then show ?thesis by simp
qed

section \<open>Column lists and their three arrays\<close>

lemma length_starts [simp]: "length (starts cs) = length cs"
  by (simp add: starts_def)

lemma starts_snoc: "starts (cs @ [c]) = starts cs @ [int (length (concat cs))]"
  by (simp add: starts_def)

lemma starts_Nil [simp]: "starts [] = []"
  by (simp add: starts_def)

lemma starts_append:
  "starts (cs @ ds) = starts cs @ map (\<lambda>x. int (length (concat cs)) + x) (starts ds)"
  by (induction ds rule: rev_induct) (simp_all add: starts_snoc flip: append_assoc)

lemma length_col_ptr: "length (col_ptr cs) = Suc (length cs)"
  by (simp add: col_ptr_def)

lemma col_ptr_nth: "k \<le> length cs \<Longrightarrow> col_ptr cs ! k = int (length (concat (take k cs)))"
  by (cases "k = length cs") (simp_all add: col_ptr_def nth_append starts_def)

lemma concat_replicate_Nil [simp]: "concat (replicate k []) = []"
  by (induction k) simp_all

lemma col_ptr_empty_cols:
  "col_ptr (cs @ replicate k []) = starts cs @ replicate (Suc k) (int (length (concat cs)))"
proof -
  have "starts (replicate k ([] :: 'a list)) = replicate k 0"
    by (simp add: starts_def take_replicate map_replicate_const)
  then show ?thesis
    by (simp add: col_ptr_def starts_append replicate_append_same)
qed

lemma length_concat_take_mono:
  "i \<le> j \<Longrightarrow> length (concat (take i cs)) \<le> length (concat (take j cs))"
proof -
  assume "i \<le> j"
  then have "take j cs = take i cs @ take (j - i) (drop i cs)"
    by (metis add_diff_inverse_nat le_antisym less_le_not_le nat_le_linear take_add not_less)
  then show ?thesis by simp
qed

lemma sorted_col_ptr: "sorted (col_ptr cs)"
  unfolding sorted_iff_nth_mono
  by (auto simp: length_col_ptr col_ptr_nth intro: length_concat_take_mono)

lemma hd_col_ptr: "hd (col_ptr cs) = 0"
  using col_ptr_nth[of 0 cs] by (simp add: hd_conv_nth col_ptr_def)

lemma concat_take_Suc:
  "k < length cs \<Longrightarrow> concat (take (Suc k) cs) = concat (take k cs) @ cs ! k"
  by (simp add: take_Suc_conv_app_nth)

lemma slice_concat:
  assumes "k < length cs"
  shows "take (length (cs ! k)) (drop (length (concat (take k cs))) (concat cs)) = cs ! k"
proof -
  have "cs = take k cs @ cs ! k # drop (Suc k) cs"
    using assms by (simp add: id_take_nth_drop)
  then have "concat cs = concat (take k cs) @ cs ! k @ concat (drop (Suc k) cs)"
    by (metis concat.simps(2) concat_append)
  then show ?thesis by simp
qed

lemma csc_column_concat:
  assumes "k < length cs" "map length vs = map length cs"
  shows "csc_column (concat vs, concat cs, col_ptr cs) k = zip (cs ! k) (vs ! k)"
proof -
  have len: "length vs = length cs" using assms(2) by (metis length_map)
  have lk: "length (vs ! k) = length (cs ! k)"
    using assms len by (metis nth_map)
  have tk: "length (concat (take k vs)) = length (concat (take k cs))" for k
    using assms(2) by (simp add: length_concat take_map[symmetric])
  have a: "col_ptr cs ! k = int (length (concat (take k cs)))"
    using assms by (simp add: col_ptr_nth)
  have b: "col_ptr cs ! Suc k = int (length (concat (take k cs)) + length (cs ! k))"
    using assms by (simp add: col_ptr_nth concat_take_Suc)
  have a': "nat (col_ptr cs ! k) = length (concat (take k cs))"
    by (simp add: a)
  have b': "nat (col_ptr cs ! Suc k) - length (concat (take k cs)) = length (cs ! k)"
    unfolding b by simp
  show ?thesis
    unfolding csc_column_def
    using slice_concat[OF assms(1)] slice_concat[of k vs] assms(1) len lk tk
    by (simp add: a' b' Let_def)
qed

lemma length_concat_upt:
  "length (concat (map f [0..<n])) = (\<Sum>k<n. length (f k))"
  by (induction n) simp_all

lemma nth_concat_upt:
  assumes "j < n" "c < length (f j)"
  shows "concat (map f [0..<n]) ! ((\<Sum>k<j. length (f k)) + c) = f j ! c"
  using assms
proof (induction n)
  case 0 then show ?case by simp
next
  case (Suc n)
  show ?case
  proof (cases "j = n")
    case True
    then show ?thesis using Suc.prems by (simp add: nth_append length_concat_upt)
  next
    case False
    then have jn: "j < n" using Suc.prems by simp
    have "(\<Sum>k<j. length (f k)) + c < (\<Sum>k<Suc j. length (f k))" using Suc.prems by simp
    also have "\<dots> \<le> (\<Sum>k<n. length (f k))"
      using jn by (intro sum_mono2) auto
    finally show ?thesis using Suc.IH[OF jn Suc.prems(2)] by (simp add: nth_append length_concat_upt)
  qed
qed

text \<open>The constructor returns on every valid input, and none of its \<^verbatim>\<open>int\<close> expressions
  wraps around.\<close>

lemma construct_object_ok:
  assumes "valid_input h ego_arg E N A b x"
  shows "\<exists>p. construct h t ego_arg E N A b x = Some p \<and> object_ok p
            \<and> horizon p = int h \<and> obstacles_num p = int N \<and> obstacles_edges_num p = E
            \<and> obstacles_A p = A \<and> obstacles_b p = b \<and> xWS p = x \<and> ego p = ego_arg
            \<and> l_warm_up p = \<lparr>nrows = nat (edges_before E N), ncols = h + 1, coeff = (\<lambda>_. 0)\<rparr>
            \<and> n_warm_up p = \<lparr>nrows = 4 * N, ncols = h + 1, coeff = (\<lambda>_. 0)\<rparr>
            \<and> g p = [(coeff ego_arg (0, 0) + coeff ego_arg (2, 0)) / 2,
                     (coeff ego_arg (1, 0) + coeff ego_arg (3, 0)) / 2,
                     (coeff ego_arg (0, 0) + coeff ego_arg (2, 0)) / 2,
                     (coeff ego_arg (1, 0) + coeff ego_arg (3, 0)) / 2]
            \<and> offset p = (coeff ego_arg (0, 0) + coeff ego_arg (2, 0)) / 2 - coeff ego_arg (2, 0)"
proof -
  have "3 * int N * (int h + 1) + (edges_before E N * (int h + 1) + 4 * int N * (int h + 1))
          \<le> int_max"
    using assms by (simp add: valid_input_def algebra_simps)
  then show ?thesis
    using assms edges_before_nonneg[of N E N]
    by (simp add: construct_valid[OF assms] object_ok_def valid_input_def)
qed

section \<open>The objective assembler returns the block-diagonal matrix\<close>

lemma edges_before_Suc: "edges_before E (Suc j) = edges_before E j + edges_num E j"
  by (simp add: edges_before_def)

lemma edges_before_mono:
  assumes "\<forall>j<N. 0 < edges_num E j" "i \<le> j" "j \<le> N"
  shows "edges_before E i \<le> edges_before E j"
  unfolding edges_before_def
  by (rule sum_mono2) (use assms in \<open>auto simp: less_imp_le\<close>)

lemma for_loop_append_opt:
  assumes "\<And>k. k < n \<Longrightarrow> f k = Some (h k)"
  shows "for_loop 0 n (\<lambda>k xs. do { v \<leftarrow> f k; Some (xs @ [v]) }) xs = Some (xs @ map h [0..<n])"
  using for_loop_closed[where F = "\<lambda>k. xs @ map h [0..<k]" and i = 0 and n = n
      and body = "\<lambda>k xs. do { v \<leftarrow> f k; Some (xs @ [v]) }"] assms
  by simp

lemma for_loop_concat:
  assumes "\<And>k xs. k < n \<Longrightarrow> body k xs = Some (xs @ h k)"
  shows "for_loop 0 n body xs = Some (xs @ concat (map h [0..<n]))"
  using for_loop_closed[where F = "\<lambda>k. xs @ concat (map h [0..<k])" and i = 0 and n = n
      and body = body] assms
  by simp

lemma object_ok_edges_at:
  assumes "object_ok p" "j < nat (obstacles_num p)"
  shows "mat_at (obstacles_edges_num p) j 0 = Some (edges_num (obstacles_edges_num p) j)"
    and "0 < edges_num (obstacles_edges_num p) j"
    and "0 \<le> edges_before (obstacles_edges_num p) j"
    and "edges_before (obstacles_edges_num p) j + edges_num (obstacles_edges_num p) j
           \<le> obstacles_edges_sum p"
proof -
  let ?E = "obstacles_edges_num p" and ?N = "nat (obstacles_num p)"
  have pos: "\<forall>j<?N. 0 < edges_num ?E j" using assms(1) by (simp add: object_ok_def)
  show "mat_at ?E j 0 = Some (edges_num ?E j)"
    using assms by (simp add: object_ok_def mat_at_def edges_num_def)
  show "0 < edges_num ?E j" using pos assms(2) by simp
  show "0 \<le> edges_before ?E j"
    using edges_before_nonneg[OF pos, of j] assms(2) by simp
  have "edges_before ?E (Suc j) \<le> edges_before ?E ?N"
    using edges_before_mono[OF pos, of "Suc j" ?N] assms(2) by simp
  then show "edges_before ?E j + edges_num ?E j \<le> obstacles_edges_sum p"
    using assms(1) by (simp add: object_ok_def edges_before_Suc)
qed

lemma to_int_between: "0 \<le> x \<Longrightarrow> x \<le> y \<Longrightarrow> y \<le> int_max \<Longrightarrow> to_int x = x"
  by (rule to_int_id) simp_all

text \<open>In an object built from a valid input the dimensions are within \<^verbatim>\<open>int\<close>, and so
  are the row offsets the assemblers compute from them.\<close>

lemma object_ok_bounds:
  assumes ok: "object_ok p"
  shows "0 \<le> obstacles_edges_sum p" "obstacles_edges_sum p \<le> lambda_horizon p"
    and "0 \<le> lambda_horizon p" "0 \<le> miu_horizon p" "0 \<le> num_of_variables p"
    and "lambda_horizon p \<le> num_of_variables p"
    and "num_of_variables p + 1 \<le> int_max"
    and "3 * obstacles_num p * (horizon p + 1) + num_of_variables p \<le> int_max"
    and "0 \<le> obstacles_num p * (horizon p + 1)"
    and "obstacles_num p \<le> obstacles_num p * (horizon p + 1)"
proof -
  let ?S = "obstacles_edges_sum p" and ?N = "obstacles_num p" and ?H = "horizon p + 1"
  have h0: "0 \<le> horizon p" using ok unfolding object_ok_def by blast
  have f: "0 \<le> ?N" "1 \<le> ?H" "lambda_horizon p = ?S * ?H" "miu_horizon p = 4 * ?N * ?H"
    "num_of_variables p = lambda_horizon p + miu_horizon p"
    "num_of_constraints p = 3 * ?N * ?H + num_of_variables p" "num_of_constraints p \<le> int_max"
    "?S = edges_before (obstacles_edges_num p) (nat ?N)"
    using ok h0 unfolding object_ok_def by (blast, linarith, blast+)
  show S0: "0 \<le> ?S" using ok by (simp add: object_ok_def flip: of_nat_0_le_iff)
  show SH: "?S \<le> lambda_horizon p" using S0 f(2,3) by (simp add: mult_le_cancel_left1)
  show l0: "0 \<le> lambda_horizon p" using S0 SH by simp
  show NH0: "0 \<le> ?N * ?H" using f(1,2) by simp
  show NH: "?N \<le> ?N * ?H" using f(1,2) by (simp add: mult_le_cancel_left1)
  show m0: "0 \<le> miu_horizon p" using NH0 f(4) by simp
  show "0 \<le> num_of_variables p" using l0 m0 f(5) by simp
  show "lambda_horizon p \<le> num_of_variables p" using m0 f(5) by simp
  show "3 * ?N * ?H + num_of_variables p \<le> int_max" using f(6,7) by simp
  show "num_of_variables p + 1 \<le> int_max"
  proof (cases "?N = 0")
    case True
    then have "?S = 0" using f(8) by (simp add: edges_before_def)
    then show ?thesis using True f(3,4,5) by (simp add: int_max_def)
  next
    case False
    then have "1 \<le> ?N * ?H" using f(1) NH by linarith
    then show ?thesis using f(6,7) by linarith
  qed
qed

lemma object_ok_to_int:
  assumes ok: "object_ok p"
  shows "to_int (horizon p + 1) = horizon p + 1"
    and "to_int (2 * obstacles_num p) = 2 * obstacles_num p"
    and "to_int (3 * obstacles_num p) = 3 * obstacles_num p"
    and "to_int (4 * obstacles_num p) = 4 * obstacles_num p"
    and "to_int (2 * obstacles_num p * (horizon p + 1)) = 2 * obstacles_num p * (horizon p + 1)"
    and "to_int (3 * obstacles_num p * (horizon p + 1)) = 3 * obstacles_num p * (horizon p + 1)"
    and "to_int (3 * obstacles_num p * (horizon p + 1) + lambda_horizon p)
           = 3 * obstacles_num p * (horizon p + 1) + lambda_horizon p"
    and "to_int (num_of_variables p + 1) = num_of_variables p + 1"
proof -
  note b = object_ok_bounds[OF ok]
  have f: "0 \<le> obstacles_num p" "0 \<le> horizon p" "horizon p < int_max"
    "num_of_variables p = lambda_horizon p + miu_horizon p"
    "miu_horizon p = 4 * obstacles_num p * (horizon p + 1)"
    using ok unfolding object_ok_def by blast+
  show "to_int (horizon p + 1) = horizon p + 1"
    using f(2,3) by (intro to_int_id) simp_all
  show "to_int (2 * obstacles_num p) = 2 * obstacles_num p"
    "to_int (3 * obstacles_num p) = 3 * obstacles_num p"
    "to_int (4 * obstacles_num p) = 4 * obstacles_num p"
    "to_int (2 * obstacles_num p * (horizon p + 1)) = 2 * obstacles_num p * (horizon p + 1)"
    "to_int (3 * obstacles_num p * (horizon p + 1)) = 3 * obstacles_num p * (horizon p + 1)"
    "to_int (3 * obstacles_num p * (horizon p + 1) + lambda_horizon p)
           = 3 * obstacles_num p * (horizon p + 1) + lambda_horizon p"
    "to_int (num_of_variables p + 1) = num_of_variables p + 1"
    using f(1,4,5) b by (intro to_int_id; simp; linarith)+
qed

lemma P_tmp_step_ok:
  assumes ok: "object_ok p" and j: "j < nat (obstacles_num p)"
  shows "P_tmp_step p j (xs, edges_before (obstacles_edges_num p) j)
         = Some (xs @ concat (P_obstacle_vals p j), edges_before (obstacles_edges_num p) (Suc j))"
proof -
  let ?E = "obstacles_edges_num p"
  define e where "e = edges_num ?E j"
  define off where "off = edges_before ?E j"
  note ea = object_ok_edges_at[OF ok j, folded e_def off_def]
  define B :: "real matrix" where
    "B = \<lparr>nrows = nat e, ncols = 2, coeff = (\<lambda>(r, c). coeff (obstacles_A p) (nat off + r, c))\<rparr>"
  have blk: "block (obstacles_A p) off 0 e 2 = Some B"
    using ea ok by (simp add: block_def object_ok_def B_def)
  define G :: "real matrix" where
    "G = \<lparr>nrows = nat e, ncols = nat e, coeff = (\<lambda>(r, c). gram p j r c)\<rparr>"
  have mul: "mat_mul B (mat_transpose B) = Some G"
    by (simp add: mat_mul_def mat_transpose_def B_def G_def gram_def off_def numeral_2_eq_2 fun_eq_iff Let_def)
  have inner: "for_loop 0 (nat e) (\<lambda>r P_tmp. do { v \<leftarrow> mat_at G r c; Some (P_tmp @ [v]) }) ys
       = Some (ys @ map (\<lambda>r. gram p j r c) [0..<nat e])" if "c < nat e" for c ys
    by (rule for_loop_append_opt) (use that in \<open>simp add: mat_at_def G_def\<close>)
  have outer: "for_loop 0 (nat e) (\<lambda>c. for_loop 0 (nat e)
         (\<lambda>r P_tmp. do { v \<leftarrow> mat_at G r c; Some (P_tmp @ [v]) })) xs
       = Some (xs @ concat (map (\<lambda>c. map (\<lambda>r. gram p j r c) [0..<nat e]) [0..<nat e]))"
    by (rule for_loop_concat) (simp add: inner)
  have chk: "CHECK (e = int (ncols G)) = Some ()" "CHECK (e = int (nrows G)) = Some ()"
    using ea by (simp_all add: CHECK_def G_def)
  have cnt: "to_int (off + e) = off + e"
    using ea object_ok_bounds(1-3)[OF ok] object_ok_bounds(5-7)[OF ok]
    by (intro to_int_id) linarith+
  show ?thesis
    unfolding P_tmp_step_def
    by (simp add: ea(1) blk mul chk cnt outer P_obstacle_vals_def edges_before_Suc Let_def
             flip: e_def off_def)
qed

lemma P_tmp_loop:
  assumes ok: "object_ok p"
  shows "for_loop 0 (nat (obstacles_num p)) (P_tmp_step p) ([], 0)
         = Some (concat (P_step_vals p), obstacles_edges_sum p)"
proof -
  let ?E = "obstacles_edges_num p"
  let ?F = "\<lambda>j. (concat (concat (map (P_obstacle_vals p) [0..<j])), edges_before ?E j)"
  have "for_loop 0 (nat (obstacles_num p)) (P_tmp_step p) (?F 0) = Some (?F (nat (obstacles_num p)))"
    by (rule for_loop_closed) (simp_all add: P_tmp_step_ok[OF ok])
  then show ?thesis using ok by (simp add: P_step_vals_def object_ok_def edges_before_def)
qed

lemma length_concat_upt_mono:
  assumes "j \<le> n"
  shows "length (concat (concat (map f [0..<j]))) \<le> length (concat (concat (map f [0..<n])))"
proof -
  have "[0..<n] = [0..<j] @ [j..<n]"
    using assms by (metis le_add_diff_inverse upt_add_eq_append zero_le)
  then have "concat (concat (map f [0..<n]))
             = concat (concat (map f [0..<j])) @ concat (concat (map f [j..<n]))"
    by (metis concat_append map_append)
  then show ?thesis by simp
qed

lemma P_col_step_ok:
  assumes "0 \<le> e" "0 \<le> l" "l + e \<le> int_max" "int (length (concat cs)) + e \<le> int_max"
  shows "P_col_step l e c (concat cs, starts cs, int (length (concat cs)))
   = Some (concat (cs @ [P_col_rows l e]), starts (cs @ [P_col_rows l e]),
           int (length (concat (cs @ [P_col_rows l e]))))"
proof -
  have rows: "map (\<lambda>r. to_int (int r + l)) [0..<nat e] = P_col_rows l e"
    unfolding P_col_rows_def
    by (rule map_cong[OF refl]) (use assms in \<open>auto intro!: to_int_id\<close>)
  have len: "to_int (int (length (concat cs)) + e) = int (length (concat cs)) + e"
    using assms by (intro to_int_id) simp_all
  have l: "int (length (P_col_rows l e)) = e"
    using assms(1) by (simp add: P_col_rows_def)
  show ?thesis
    by (simp add: P_col_step_def for_loop_append rows len starts_snoc l)
qed

lemma P_col_loop:
  assumes "0 \<le> e" "0 \<le> l" "l + e \<le> int_max"
    and "int (length (concat (cs @ replicate (nat e) (P_col_rows l e)))) \<le> int_max"
  shows "for_loop 0 (nat e) (P_col_step l e) (concat cs, starts cs, int (length (concat cs)))
   = Some (concat (cs @ replicate (nat e) (P_col_rows l e)),
           starts (cs @ replicate (nat e) (P_col_rows l e)),
           int (length (concat (cs @ replicate (nat e) (P_col_rows l e)))))"
proof -
  let ?C = "\<lambda>c. cs @ replicate c (P_col_rows l e)"
  let ?F = "\<lambda>c. (concat (?C c), starts (?C c), int (length (concat (?C c))))"
  have step: "P_col_step l e c (?F c) = Some (?F (Suc c))" if "c < nat e" for c
  proof -
    have eq: "?C (Suc c) = ?C c @ [P_col_rows l e]"
      by (simp add: replicate_append_same)
    have "length (concat (?C (Suc c))) \<le> length (concat (?C (nat e)))"
    proof -
      have "replicate (nat e) (P_col_rows l e)
            = replicate (Suc c) (P_col_rows l e) @ replicate (nat e - Suc c) (P_col_rows l e)"
        using that by (simp add: replicate_add[symmetric] del: replicate_Suc)
      then have "concat (?C (nat e))
            = concat (?C (Suc c)) @ concat (replicate (nat e - Suc c) (P_col_rows l e))"
        by (simp del: replicate_Suc)
      then show ?thesis by simp
    qed
    then have "int (length (concat (?C (Suc c)))) \<le> int_max"
      using assms(4) by linarith
    moreover have "int (length (concat (?C (Suc c)))) = int (length (concat (?C c))) + e"
      using assms(1) by (simp add: P_col_rows_def)
    ultimately have "int (length (concat (?C c))) + e \<le> int_max" by simp
    then show ?thesis unfolding eq by (intro P_col_step_ok assms(1-3))
  qed
  have "for_loop 0 (nat e) (P_col_step l e) (?F 0) = Some (?F (nat e))"
    by (rule for_loop_closed) (simp_all only: step le0)
  then show ?thesis by simp
qed

lemma P_obstacle_step_ok:
  assumes ok: "object_ok p" and j: "j < nat (obstacles_num p)"
    and fit: "int (length (concat (cs @ P_obstacle_rows p i j))) \<le> int_max"
      "int (Suc i) * obstacles_edges_sum p \<le> int_max"
  shows "P_obstacle_step p j
           (concat cs, starts cs,
            int i * obstacles_edges_sum p + edges_before (obstacles_edges_num p) j,
            int (length (concat cs)), edges_before (obstacles_edges_num p) j)
         = Some (concat (cs @ P_obstacle_rows p i j), starts (cs @ P_obstacle_rows p i j),
            int i * obstacles_edges_sum p + edges_before (obstacles_edges_num p) (Suc j),
            int (length (concat (cs @ P_obstacle_rows p i j))),
            edges_before (obstacles_edges_num p) (Suc j))"
proof -
  let ?E = "obstacles_edges_num p"
  define e where "e = edges_num ?E j"
  define off where "off = edges_before ?E j"
  define l where "l = int i * obstacles_edges_sum p + off"
  note ea = object_ok_edges_at[OF ok j, folded e_def off_def]
  have S0: "0 \<le> obstacles_edges_sum p" by (rule object_ok_bounds(1)[OF ok])
  have iS: "0 \<le> int i * obstacles_edges_sum p" using S0 by simp
  have le: "l + e \<le> int_max"
    using ea(4) fit(2) by (simp add: l_def algebra_simps)
  have e0: "0 \<le> e" and l0: "0 \<le> l" using ea(2,3) iS by (simp_all add: l_def)
  have rows: "P_obstacle_rows p i j = replicate (nat e) (P_col_rows l e)"
    by (simp add: P_obstacle_rows_def Let_def e_def l_def off_def)
  have loop: "for_loop 0 (nat e) (P_col_step l e) (concat cs, starts cs, int (length (concat cs)))
     = Some (concat (cs @ P_obstacle_rows p i j), starts (cs @ P_obstacle_rows p i j),
             int (length (concat (cs @ P_obstacle_rows p i j))))"
    unfolding rows by (rule P_col_loop[OF e0 l0 le]) (use fit(1) in \<open>simp only: rows\<close>)
  have w1: "to_int (l + e) = l + e" using e0 l0 le by (intro to_int_id) simp_all
  have w2: "to_int (off + e) = off + e"
    using ea(2,3) iS le by (intro to_int_id) (simp_all add: l_def)
  show ?thesis
    unfolding P_obstacle_step_def edges_before_Suc
    unfolding off_def[symmetric] e_def[symmetric] l_def[symmetric]
    by (simp only: prod.case Option.bind.bind_lunit ea(1) loop w1 w2)
       (simp add: l_def)
qed

lemma P_obstacle_loop:
  assumes ok: "object_ok p"
    and fit: "int (length (concat (cs @ P_step_rows p i))) \<le> int_max"
      "int (Suc i) * obstacles_edges_sum p \<le> int_max"
  shows "for_loop 0 (nat (obstacles_num p)) (P_obstacle_step p)
           (concat cs, starts cs, int i * obstacles_edges_sum p, int (length (concat cs)), 0)
         = Some (concat (cs @ P_step_rows p i), starts (cs @ P_step_rows p i),
            int (Suc i) * obstacles_edges_sum p,
            int (length (concat (cs @ P_step_rows p i))), obstacles_edges_sum p)"
proof -
  let ?E = "obstacles_edges_num p"
  let ?C = "\<lambda>j. cs @ concat (map (P_obstacle_rows p i) [0..<j])"
  let ?F = "\<lambda>j. (concat (?C j), starts (?C j), int i * obstacles_edges_sum p + edges_before ?E j,
                 int (length (concat (?C j))), edges_before ?E j)"
  have step: "P_obstacle_step p j (?F j) = Some (?F (Suc j))" if "j < nat (obstacles_num p)" for j
  proof -
    have eq: "?C (Suc j) = ?C j @ P_obstacle_rows p i j" by simp
    have "length (concat (?C (Suc j))) \<le> length (concat (cs @ P_step_rows p i))"
      using length_concat_upt_mono[of "Suc j" "nat (obstacles_num p)" "P_obstacle_rows p i"] that
      by (simp add: P_step_rows_def del: upt_Suc)
    then have "int (length (concat (?C j @ P_obstacle_rows p i j))) \<le> int_max"
      using fit(1) unfolding eq by linarith
    then show ?thesis unfolding eq by (intro P_obstacle_step_ok[OF ok that] fit(2))
  qed
  have "for_loop 0 (nat (obstacles_num p)) (P_obstacle_step p) (?F 0)
        = Some (?F (nat (obstacles_num p)))"
    by (rule for_loop_closed) (simp_all only: step le0)
  moreover have "edges_before ?E (nat (obstacles_num p)) = obstacles_edges_sum p"
    using ok by (simp add: object_ok_def)
  moreover have "edges_before ?E 0 = 0" by (simp add: edges_before_def)
  ultimately show ?thesis
    by (simp add: P_step_rows_def algebra_simps del: concat_append)
qed

lemma P_horizon_step_ok:
  assumes ok: "object_ok p"
    and fit: "int (length (concat (cs @ P_step_rows p i))) \<le> int_max"
      "int (Suc i) * obstacles_edges_sum p \<le> int_max"
  shows "P_horizon_step p P_tmp i
           (D, concat cs, starts cs, int i * obstacles_edges_sum p, int (length (concat cs)), ec)
         = Some (D @ P_tmp, concat (cs @ P_step_rows p i), starts (cs @ P_step_rows p i),
            int (Suc i) * obstacles_edges_sum p,
            int (length (concat (cs @ P_step_rows p i))), obstacles_edges_sum p)"
  unfolding P_horizon_step_def
  by (simp add: P_obstacle_loop[OF ok fit] Let_def del: concat_append of_nat_Suc)

lemma P_horizon_loop:
  assumes ok: "object_ok p"
    and fit: "int (length (concat (concat (map (P_step_rows p) [0..<nat (horizon p + 1)]))))
                \<le> int_max"
  shows "for_loop 0 (nat (horizon p + 1)) (P_horizon_step p (concat (P_step_vals p)))
           ([], [], [], l_start_index p, 0, obstacles_edges_sum p)
         = Some (concat (concat (map (\<lambda>i. P_step_vals p) [0..<nat (horizon p + 1)])),
                 concat (concat (map (P_step_rows p) [0..<nat (horizon p + 1)])),
                 starts (concat (map (P_step_rows p) [0..<nat (horizon p + 1)])),
                 (horizon p + 1) * obstacles_edges_sum p,
                 int (length (concat (concat (map (P_step_rows p) [0..<nat (horizon p + 1)])))),
                 obstacles_edges_sum p)"
proof -
  let ?H = "nat (horizon p + 1)"
  let ?C = "\<lambda>i. concat (map (P_step_rows p) [0..<i])"
  let ?F = "\<lambda>i. (concat (concat (map (\<lambda>i. P_step_vals p) [0..<i])),
                 concat (?C i), starts (?C i), int i * obstacles_edges_sum p,
                 int (length (concat (?C i))), obstacles_edges_sum p)"
  note b = object_ok_bounds[OF ok]
  have H: "int ?H = horizon p + 1" "lambda_horizon p = obstacles_edges_sum p * (horizon p + 1)"
    using ok unfolding object_ok_def by (linarith, blast)
  have step: "P_horizon_step p (concat (P_step_vals p)) i (?F i) = Some (?F (Suc i))"
    if "i < ?H" for i
  proof -
    have eq: "?C (Suc i) = ?C i @ P_step_rows p i"
      "concat (concat (map (\<lambda>i. P_step_vals p) [0..<Suc i]))
         = concat (concat (map (\<lambda>i. P_step_vals p) [0..<i])) @ concat (P_step_vals p)"
      by simp_all
    have "length (concat (?C (Suc i))) \<le> length (concat (?C ?H))"
      using length_concat_upt_mono[of "Suc i" ?H "P_step_rows p"] that by simp
    then have f1: "int (length (concat (?C i @ P_step_rows p i))) \<le> int_max"
      using fit unfolding eq by linarith
    have "int (Suc i) \<le> horizon p + 1" using that H(1) by linarith
    then have "int (Suc i) * obstacles_edges_sum p \<le> (horizon p + 1) * obstacles_edges_sum p"
      using b(1) by (intro mult_right_mono)
    then have f2: "int (Suc i) * obstacles_edges_sum p \<le> int_max"
      using b(6,7) H(2) by (simp add: mult.commute)
    show ?thesis unfolding eq by (rule P_horizon_step_ok[OF ok f1 f2])
  qed
  have "for_loop 0 ?H (P_horizon_step p (concat (P_step_vals p))) (?F 0) = Some (?F ?H)"
    by (rule for_loop_closed) (simp_all only: step le0)
  moreover have "l_start_index p = 0" "0 \<le> horizon p + 1"
    using ok unfolding object_ok_def by (blast, linarith)
  ultimately show ?thesis by simp
qed

lemma nat_sum_nonneg:
  assumes "\<forall>j<n. 0 \<le> f j"
  shows "(\<Sum>j<n. nat (f j)) = nat (\<Sum>j<n. f j)"
proof -
  have "int (\<Sum>j<n. nat (f j)) = (\<Sum>j<n. f j)"
    using assms by simp
  then show ?thesis by linarith
qed

lemma length_P_obstacle_rows:
  "length (P_obstacle_rows p i j) = nat (edges_num (obstacles_edges_num p) j)"
  by (simp add: P_obstacle_rows_def Let_def)

lemma length_P_step_rows:
  assumes ok: "object_ok p"
  shows "length (P_step_rows p i) = nat (obstacles_edges_sum p)"
proof -
  have "\<forall>j<nat (obstacles_num p). 0 \<le> edges_num (obstacles_edges_num p) j"
    using ok by (auto simp: object_ok_def less_imp_le)
  then show ?thesis
    using ok
    by (simp add: P_step_rows_def length_concat_upt length_P_obstacle_rows nat_sum_nonneg
          object_ok_def edges_before_def)
qed

lemma length_P_lambda_cols:
  assumes ok: "object_ok p"
  shows "int (length (concat (map (P_step_rows p) [0..<nat (horizon p + 1)]))) = lambda_horizon p"
proof -
  have "0 \<le> obstacles_edges_sum p" using ok by (simp add: object_ok_def flip: of_nat_0_le_iff)
  then show ?thesis
    using ok
    by (simp add: length_concat_upt length_P_step_rows[OF ok] object_ok_def algebra_simps)
qed

lemma map_length_P_obstacle:
  "map length (P_obstacle_rows p i j) = map length (P_obstacle_vals p j)"
  by (simp add: P_obstacle_vals_def P_obstacle_rows_def P_col_rows_def Let_def
        map_replicate_const comp_def)

lemma map_length_P_step: "map length (P_step_rows p i) = map length (P_step_vals p)"
  by (simp add: P_step_vals_def P_step_rows_def map_concat comp_def map_length_P_obstacle)

lemma map_length_P: "map length (P_vals p) = map length (P_rows p)"
  by (simp add: P_vals_def P_rows_def map_concat comp_def map_length_P_step)

lemma length_concat_eq: "map length vs = map length cs \<Longrightarrow> length (concat vs) = length (concat cs)"
  by (simp add: length_concat)

lemma length_P_rows:
  assumes ok: "object_ok p"
  shows "int (length (P_rows p)) = num_of_variables p"
proof -
  have "0 \<le> miu_horizon p" using ok by (simp add: object_ok_def)
  then show ?thesis
    using length_P_lambda_cols[OF ok] ok by (simp add: P_rows_def object_ok_def)
qed

lemma assemble_P_ok:
  assumes ok: "object_ok p" and fit: "int (length (concat (P_rows p))) \<le> int_max"
  shows "assemble_P p = Some (concat (P_vals p), concat (P_rows p), col_ptr (P_rows p))"
proof -
  let ?C = "concat (map (P_step_rows p) [0..<nat (horizon p + 1)])"
  note b = object_ok_bounds[OF ok]
  have nv: "num_of_variables p = lambda_horizon p + miu_horizon p"
    using ok unfolding object_ok_def by blast
  have cnt: "nat (num_of_variables p + 1) - nat (lambda_horizon p) = Suc (nat (miu_horizon p))"
    using b(3,4) nv by simp
  have le: "nat (lambda_horizon p) \<le> nat (num_of_variables p + 1)"
    using b(3,4) nv by simp
  have ptr: "starts ?C @ replicate (Suc (nat (miu_horizon p))) (int (length (concat (P_rows p))))
             = col_ptr (P_rows p)"
    by (simp add: P_rows_def col_ptr_empty_cols)
  have c1: "CHECK (int (length (starts ?C)) = lambda_horizon p) = Some ()"
    using length_P_lambda_cols[OF ok] by (simp add: CHECK_def)
  have c2: "CHECK (length (concat (P_vals p)) = length (concat (P_rows p))) = Some ()"
    using length_concat_eq[OF map_length_P[of p]] by (simp add: CHECK_def)
  have c3: "CHECK (int (length (col_ptr (P_rows p))) = num_of_variables p + 1) = Some ()"
    using length_P_rows[OF ok] by (simp add: CHECK_def length_col_ptr)
  have dv: "concat (concat (map (\<lambda>i. P_step_vals p) [0..<nat (horizon p + 1)])) = concat (P_vals p)"
    by (simp add: P_vals_def)
  have dr: "concat ?C = concat (P_rows p)"
    by (simp add: P_rows_def)
  have fit': "int (length (concat ?C)) \<le> int_max" using fit unfolding dr .
  show ?thesis
    unfolding assemble_P_def P_tmp_loop[OF ok] Let_def object_ok_to_int[OF ok]
    by (simp only: Option.bind.bind_lunit prod.case P_horizon_loop[OF ok fit'] c1
          for_loop_append_const[OF le] cnt ptr dv dr c2 c3)
qed

section \<open>The constraint assembler returns the columns above\<close>

lemma col_vals_snoc: "col_vals (cs @ [c]) = col_vals cs @ map snd c"
  by (simp add: col_vals_def)

lemma col_rows_snoc: "col_rows (cs @ [c]) = col_rows cs @ map fst c"
  by (simp add: col_rows_def)

lemma length_concat_map_upt_mono:
  assumes "j \<le> n"
  shows "length (concat (map f [0..<j])) \<le> length (concat (map f [0..<n]))"
proof -
  have "[0..<n] = [0..<j] @ [j..<n]"
    using assms by (metis le_add_diff_inverse upt_add_eq_append zero_le)
  then have "concat (map f [0..<n]) = concat (map f [0..<j]) @ concat (map f [j..<n])"
    by (metis concat_append map_append)
  then show ?thesis by simp
qed

text \<open>The index of a (step, obstacle) pair is below the number of pairs, and the \<open>\<lambda>\<close>
  variables of the steps up to \<open>i\<close> are among all \<open>\<lambda>\<close> variables.\<close>

lemma pair_bound:
  assumes ok: "object_ok p" and i: "i < nat (horizon p + 1)" and j: "j < nat (obstacles_num p)"
  shows "int i * obstacles_num p + int j + 1 \<le> obstacles_num p * (horizon p + 1)"
proof -
  have N0: "0 \<le> obstacles_num p" using ok unfolding object_ok_def by blast
  have "int i + 1 \<le> horizon p + 1" using i by linarith
  then have a: "(int i + 1) * obstacles_num p \<le> (horizon p + 1) * obstacles_num p"
    using N0 by (intro mult_right_mono)
  have "int j + 1 \<le> obstacles_num p" using j by linarith
  then have "int i * obstacles_num p + int j + 1 \<le> int i * obstacles_num p + obstacles_num p"
    by linarith
  also have "\<dots> = (int i + 1) * obstacles_num p" by (simp add: algebra_simps)
  also have "\<dots> \<le> obstacles_num p * (horizon p + 1)" using a by (simp only: mult.commute)
  finally show ?thesis .
qed

lemma step_bound:
  assumes ok: "object_ok p" and i: "i < nat (horizon p + 1)"
  shows "int (Suc i) * obstacles_edges_sum p \<le> lambda_horizon p"
proof -
  have "int (Suc i) \<le> horizon p + 1" using i by linarith
  then have "int (Suc i) * obstacles_edges_sum p \<le> (horizon p + 1) * obstacles_edges_sum p"
    using object_ok_bounds(1)[OF ok] by (intro mult_right_mono)
  moreover have "lambda_horizon p = obstacles_edges_sum p * (horizon p + 1)"
    using ok unfolding object_ok_def by blast
  ultimately show ?thesis by (simp add: mult.commute)
qed

lemma lambda_col_step_ok:
  assumes "nrows r1b = 2" "k < ncols r1b" "nrows r2b = 1" "k < ncols r2b"
    and "c = [(r1, coeff r1b (0, k)), (r1 + 1, coeff r1b (1, k)),
              (r2, coeff r2b (0, k)), (r3, 1)]"
    and "0 \<le> r1" "r1 + 1 \<le> int_max" "0 \<le> r3" "r3 + 1 \<le> int_max"
    and "int (length (concat (cs @ [c]))) \<le> int_max"
  shows "lambda_col_step r1b r2b r1 r2 k
           (col_vals cs, col_rows cs, starts cs, r3, int (length (concat cs)))
         = Some (col_vals (cs @ [c]), col_rows (cs @ [c]), starts (cs @ [c]), r3 + 1,
                 int (length (concat (cs @ [c]))))"
proof -
  have w: "to_int (r1 + 1) = r1 + 1" "to_int (r3 + 1) = r3 + 1"
    "to_int (int (length (concat cs)) + 4) = int (length (concat cs)) + 4"
    using assms(5-10) by (intro to_int_id; simp)+
  show ?thesis
    using assms(1-5)
    by (simp add: lambda_col_step_def mat_at_def col_vals_snoc col_rows_snoc starts_snoc
          Let_def w)
qed

lemma lambda_obstacle_step_ok:
  assumes ok: "object_ok p" and j: "j < nat (obstacles_num p)" and i: "i < nat (horizon p + 1)"
    and fit: "int (length (concat (cs @ A_lambda_obstacle p i j))) \<le> int_max"
  shows "lambda_obstacle_step p
           (mat_of_rows 2 2 [[cos (coeff (xWS p) (2, i)), sin (coeff (xWS p) (2, i))],
                             [sin (coeff (xWS p) (2, i)), cos (coeff (xWS p) (2, i))]])
           (mat_of_rows 1 2 [[coeff (xWS p) (0, i) + cos (coeff (xWS p) (2, i)) * offset p,
                              coeff (xWS p) (1, i) + sin (coeff (xWS p) (2, i)) * offset p]]) j
           (col_vals cs, col_rows cs, starts cs, edges_before (obstacles_edges_num p) j,
            2 * (int i * obstacles_num p + int j),
            2 * obstacles_num p * (horizon p + 1) + (int i * obstacles_num p + int j),
            3 * obstacles_num p * (horizon p + 1) + int i * obstacles_edges_sum p
              + edges_before (obstacles_edges_num p) j,
            int (length (concat cs)))
         = Some (col_vals (cs @ A_lambda_obstacle p i j), col_rows (cs @ A_lambda_obstacle p i j),
            starts (cs @ A_lambda_obstacle p i j), edges_before (obstacles_edges_num p) (Suc j),
            2 * (int i * obstacles_num p + int (Suc j)),
            2 * obstacles_num p * (horizon p + 1) + (int i * obstacles_num p + int (Suc j)),
            3 * obstacles_num p * (horizon p + 1) + int i * obstacles_edges_sum p
              + edges_before (obstacles_edges_num p) (Suc j),
            int (length (concat (cs @ A_lambda_obstacle p i j))))"
    (is "lambda_obstacle_step p ?R ?t j ?s = Some ?s'")
proof -
  let ?E = "obstacles_edges_num p"
  define e where "e = edges_num ?E j"
  define off where "off = edges_before ?E j"
  note ea = object_ok_edges_at[OF ok j, folded e_def off_def]
  note b = object_ok_bounds[OF ok]
  note pb = pair_bound[OF ok i j]
  note sb = step_bound[OF ok i]
  have N0: "0 \<le> obstacles_num p" using ok unfolding object_ok_def by blast
  have pair0: "0 \<le> int i * obstacles_num p + int j" using N0 by simp
  have iS0: "0 \<le> int i * obstacles_edges_sum p" using b(1) by simp
  define Aj :: "real matrix" where
    "Aj = \<lparr>nrows = nat e, ncols = 2, coeff = (\<lambda>(r, c). coeff (obstacles_A p) (nat off + r, c))\<rparr>"
  define bj :: "real matrix" where
    "bj = \<lparr>nrows = nat e, ncols = 1, coeff = (\<lambda>(r, c). coeff (obstacles_b p) (nat off + r, c))\<rparr>"
  have blkA: "block (obstacles_A p) off 0 e 2 = Some Aj"
    using ea ok by (simp add: block_def object_ok_def Aj_def)
  have blkb: "block (obstacles_b p) off 0 e 1 = Some bj"
    using ea ok by (simp add: block_def object_ok_def bj_def)
  obtain r1b where r1b: "mat_mul ?R (mat_transpose Aj) = Some r1b" "nrows r1b = 2" "ncols r1b = nat e"
    "\<And>k. coeff r1b (0, k) = cos (coeff (xWS p) (2, i)) * coeff (obstacles_A p) (nat off + k, 0)
                             + sin (coeff (xWS p) (2, i)) * coeff (obstacles_A p) (nat off + k, 1)"
    "\<And>k. coeff r1b (Suc 0, k) = sin (coeff (xWS p) (2, i)) * coeff (obstacles_A p) (nat off + k, 0)
                             + cos (coeff (xWS p) (2, i)) * coeff (obstacles_A p) (nat off + k, 1)"
    by (simp add: mat_mul_def mat_transpose_def mat_of_rows_def Aj_def numeral_2_eq_2)
  obtain tA where tA: "mat_mul ?t (mat_transpose Aj) = Some tA" "nrows tA = 1" "ncols tA = nat e"
    "\<And>k. coeff tA (0, k) =
        (coeff (xWS p) (0, i) + cos (coeff (xWS p) (2, i)) * offset p) * coeff (obstacles_A p) (nat off + k, 0)
      + (coeff (xWS p) (1, i) + sin (coeff (xWS p) (2, i)) * offset p) * coeff (obstacles_A p) (nat off + k, 1)"
    by (simp add: mat_mul_def mat_transpose_def mat_of_rows_def Aj_def numeral_2_eq_2)
  obtain r2b where r2b: "mat_sub tA (mat_transpose bj) = Some r2b" "nrows r2b = 1" "ncols r2b = nat e"
    "\<And>k. coeff r2b (0, k) = coeff tA (0, k) - coeff (obstacles_b p) (nat off + k, 0)"
    using tA(2,3) by (simp add: mat_sub_def mat_transpose_def bj_def)
  let ?r1 = "2 * (int i * obstacles_num p + int j)"
  let ?r2 = "2 * obstacles_num p * (horizon p + 1) + (int i * obstacles_num p + int j)"
  let ?r3 = "3 * obstacles_num p * (horizon p + 1) + int i * obstacles_edges_sum p + off"
  let ?C = "\<lambda>k. cs @ map (lambda_col p i j) [0..<k]"
  let ?F = "\<lambda>k. (col_vals (?C k), col_rows (?C k), starts (?C k), ?r3 + int k,
                 int (length (concat (?C k))))"
  have r1fit: "0 \<le> ?r1" "?r1 + 2 \<le> int_max"
    using pair0 pb b(8,5,9) by (simp_all add: algebra_simps)
  have r2fit: "0 \<le> ?r2" "?r2 + 1 \<le> int_max"
    using pair0 pb b(8,5,9) by (simp_all add: algebra_simps)
  have r3fit: "0 \<le> ?r3" "?r3 + e \<le> int_max"
    using ea(3,4) iS0 sb b(8,6,9) by (simp_all add: algebra_simps)
  have step: "lambda_col_step r1b r2b ?r1 ?r2 k (?F k) = Some (?F (Suc k))" if "k < nat e" for k
  proof -
    have eq: "?C (Suc k) = ?C k @ [lambda_col p i j k]" by simp
    have r: "?r3 + int (Suc k) = ?r3 + int k + 1" by simp
    have c: "lambda_col p i j k = [(?r1, coeff r1b (0, k)), (?r1 + 1, coeff r1b (1, k)),
              (?r2, coeff r2b (0, k)), (?r3 + int k, 1)]"
      by (simp add: lambda_col_def Let_def r1b(4,5) r2b(4) tA(4) off_def)
    have "length (concat (?C (Suc k))) \<le> length (concat (cs @ A_lambda_obstacle p i j))"
      using length_concat_map_upt_mono[of "Suc k" "nat e" "lambda_col p i j"] that
      by (simp add: A_lambda_obstacle_def e_def del: upt_Suc)
    then have len: "int (length (concat (?C k @ [lambda_col p i j k]))) \<le> int_max"
      using fit unfolding eq by linarith
    have kk: "int k + 1 \<le> e" using that by linarith
    show ?thesis
      unfolding eq r
      using that len kk r1fit r3fit
      by (intro lambda_col_step_ok) (simp_all add: r1b(2,3) r2b(2,3) c)
  qed
  have loop: "for_loop 0 (nat e) (lambda_col_step r1b r2b ?r1 ?r2) (?F 0) = Some (?F (nat e))"
    by (rule for_loop_closed) (simp_all only: step le0)
  have loop': "for_loop 0 (nat e) (lambda_col_step r1b r2b ?r1 ?r2)
                 (col_vals cs, col_rows cs, starts cs, ?r3, int (length (concat cs)))
               = Some (col_vals (cs @ A_lambda_obstacle p i j),
                       col_rows (cs @ A_lambda_obstacle p i j),
                       starts (cs @ A_lambda_obstacle p i j), ?r3 + e,
                       int (length (concat (cs @ A_lambda_obstacle p i j))))"
    using loop ea(2) by (simp add: A_lambda_obstacle_def flip: e_def)
  have w: "to_int (off + e) = off + e" "to_int (?r1 + 2) = ?r1 + 2" "to_int (?r2 + 1) = ?r2 + 1"
    using ea(2,3,4) b(1,2,6,7) r1fit r2fit by (intro to_int_id; linarith)+
  show ?thesis
    unfolding lambda_obstacle_step_def edges_before_Suc
    unfolding off_def[symmetric] e_def[symmetric]
    apply (simp only: prod.case Option.bind.bind_lunit ea(1) blkA blkb r1b(1) tA(1) r2b(1) loop' w)
    apply (simp add: algebra_simps)
    done
qed

lemma lambda_obstacle_loop:
  assumes ok: "object_ok p" and i: "i < nat (horizon p + 1)"
    and fit: "int (length (concat (cs @ A_lambda_step p i))) \<le> int_max"
  shows "for_loop 0 (nat (obstacles_num p))
           (lambda_obstacle_step p
             (mat_of_rows 2 2 [[cos (coeff (xWS p) (2, i)), sin (coeff (xWS p) (2, i))],
                               [sin (coeff (xWS p) (2, i)), cos (coeff (xWS p) (2, i))]])
             (mat_of_rows 1 2 [[coeff (xWS p) (0, i) + cos (coeff (xWS p) (2, i)) * offset p,
                                coeff (xWS p) (1, i) + sin (coeff (xWS p) (2, i)) * offset p]]))
           (col_vals cs, col_rows cs, starts cs, 0,
            2 * (int i * obstacles_num p),
            2 * obstacles_num p * (horizon p + 1) + int i * obstacles_num p,
            3 * obstacles_num p * (horizon p + 1) + int i * obstacles_edges_sum p,
            int (length (concat cs)))
         = Some (col_vals (cs @ A_lambda_step p i), col_rows (cs @ A_lambda_step p i),
            starts (cs @ A_lambda_step p i), obstacles_edges_sum p,
            2 * (int (Suc i) * obstacles_num p),
            2 * obstacles_num p * (horizon p + 1) + int (Suc i) * obstacles_num p,
            3 * obstacles_num p * (horizon p + 1) + int (Suc i) * obstacles_edges_sum p,
            int (length (concat (cs @ A_lambda_step p i))))"
    (is "for_loop 0 ?N ?body ?s0 = Some ?s1")
proof -
  let ?E = "obstacles_edges_num p"
  let ?C = "\<lambda>j. cs @ concat (map (A_lambda_obstacle p i) [0..<j])"
  let ?F = "\<lambda>j. (col_vals (?C j), col_rows (?C j), starts (?C j), edges_before ?E j,
            2 * (int i * obstacles_num p + int j),
            2 * obstacles_num p * (horizon p + 1) + (int i * obstacles_num p + int j),
            3 * obstacles_num p * (horizon p + 1) + int i * obstacles_edges_sum p
              + edges_before ?E j,
            int (length (concat (?C j))))"
  have step: "?body j (?F j) = Some (?F (Suc j))" if "j < ?N" for j
  proof -
    have eq: "?C (Suc j) = ?C j @ A_lambda_obstacle p i j" by simp
    have "length (concat (?C (Suc j))) \<le> length (concat (cs @ A_lambda_step p i))"
      using length_concat_upt_mono[of "Suc j" ?N "A_lambda_obstacle p i"] that
      by (simp add: A_lambda_step_def del: upt_Suc)
    then have "int (length (concat (?C j @ A_lambda_obstacle p i j))) \<le> int_max"
      using fit unfolding eq by linarith
    then show ?thesis unfolding eq by (intro lambda_obstacle_step_ok[OF ok that i])
  qed
  have loop: "for_loop 0 ?N ?body (?F 0) = Some (?F ?N)"
    by (rule for_loop_closed) (simp_all only: step le0)
  have N: "int ?N = obstacles_num p" "edges_before ?E ?N = obstacles_edges_sum p"
    using ok by (simp_all add: object_ok_def)
  have F0: "?F 0 = ?s0" by (simp add: edges_before_def)
  have N0: "0 \<le> obstacles_num p" using ok by (simp add: object_ok_def)
  have FN: "?F ?N = ?s1" using N0 by (simp add: N A_lambda_step_def algebra_simps)
  show ?thesis using loop unfolding F0 FN .
qed

lemma lambda_horizon_step_ok:
  assumes ok: "object_ok p" and i: "i < nat (horizon p + 1)"
    and fit: "int (length (concat (cs @ A_lambda_step p i))) \<le> int_max"
  shows "lambda_horizon_step p i
           (col_vals cs, col_rows cs, starts cs,
            2 * (int i * obstacles_num p),
            2 * obstacles_num p * (horizon p + 1) + int i * obstacles_num p,
            3 * obstacles_num p * (horizon p + 1) + int i * obstacles_edges_sum p,
            int (length (concat cs)))
         = Some (col_vals (cs @ A_lambda_step p i), col_rows (cs @ A_lambda_step p i),
            starts (cs @ A_lambda_step p i),
            2 * (int (Suc i) * obstacles_num p),
            2 * obstacles_num p * (horizon p + 1) + int (Suc i) * obstacles_num p,
            3 * obstacles_num p * (horizon p + 1) + int (Suc i) * obstacles_edges_sum p,
            int (length (concat (cs @ A_lambda_step p i))))"
proof -
  have at: "mat_at (xWS p) 0 i = Some (coeff (xWS p) (0, i))"
    "mat_at (xWS p) 1 i = Some (coeff (xWS p) (1, i))"
    "mat_at (xWS p) 2 i = Some (coeff (xWS p) (2, i))"
  proof -
    have "int (ncols (xWS p)) = horizon p + 1" "3 \<le> nrows (xWS p)"
      using ok by (simp_all add: object_ok_def)
    then have "i < ncols (xWS p)" "0 < nrows (xWS p)" "1 < nrows (xWS p)" "2 < nrows (xWS p)"
      using i by linarith+
    then show "mat_at (xWS p) 0 i = Some (coeff (xWS p) (0, i))"
      "mat_at (xWS p) 1 i = Some (coeff (xWS p) (1, i))"
      "mat_at (xWS p) 2 i = Some (coeff (xWS p) (2, i))"
      by (simp_all add: mat_at_def)
  qed
  show ?thesis
    unfolding lambda_horizon_step_def Let_def
    by (simp only: prod.case Option.bind.bind_lunit at lambda_obstacle_loop[OF ok i fit])
qed

lemma lambda_horizon_loop:
  assumes ok: "object_ok p"
    and fit: "int (length (concat (concat (map (A_lambda_step p) [0..<nat (horizon p + 1)]))))
                \<le> int_max"
  shows "for_loop 0 (nat (horizon p + 1)) (lambda_horizon_step p)
           ([], [], [], 0, 2 * obstacles_num p * (horizon p + 1),
            3 * obstacles_num p * (horizon p + 1), 0)
         = Some (col_vals (concat (map (A_lambda_step p) [0..<nat (horizon p + 1)])),
                 col_rows (concat (map (A_lambda_step p) [0..<nat (horizon p + 1)])),
                 starts (concat (map (A_lambda_step p) [0..<nat (horizon p + 1)])),
                 2 * ((horizon p + 1) * obstacles_num p),
                 2 * obstacles_num p * (horizon p + 1) + (horizon p + 1) * obstacles_num p,
                 3 * obstacles_num p * (horizon p + 1) + lambda_horizon p,
                 int (length (concat (concat (map (A_lambda_step p) [0..<nat (horizon p + 1)])))))"
    (is "for_loop 0 ?H ?body ?s0 = Some ?s1")
proof -
  let ?C = "\<lambda>i. concat (map (A_lambda_step p) [0..<i])"
  let ?F = "\<lambda>i. (col_vals (?C i), col_rows (?C i), starts (?C i),
            2 * (int i * obstacles_num p),
            2 * obstacles_num p * (horizon p + 1) + int i * obstacles_num p,
            3 * obstacles_num p * (horizon p + 1) + int i * obstacles_edges_sum p,
            int (length (concat (?C i))))"
  have step: "?body i (?F i) = Some (?F (Suc i))" if "i < ?H" for i
  proof -
    have eq: "?C (Suc i) = ?C i @ A_lambda_step p i" by simp
    have "length (concat (?C (Suc i))) \<le> length (concat (?C ?H))"
      using length_concat_upt_mono[of "Suc i" ?H "A_lambda_step p"] that by simp
    then have "int (length (concat (?C i @ A_lambda_step p i))) \<le> int_max"
      using fit unfolding eq by linarith
    then show ?thesis unfolding eq by (intro lambda_horizon_step_ok[OF ok that])
  qed
  have loop: "for_loop 0 ?H ?body (?F 0) = Some (?F ?H)"
    by (rule for_loop_closed) (simp_all only: step le0)
  have H: "int ?H = horizon p + 1" "lambda_horizon p = obstacles_edges_sum p * (horizon p + 1)"
    using ok by (simp_all add: object_ok_def)
  have F0: "?F 0 = ?s0" by (simp add: col_vals_def col_rows_def)
  have H0: "0 \<le> horizon p + 1" using ok by (simp add: object_ok_def)
  have FH: "?F ?H = ?s1" using H0 by (simp add: H algebra_simps)
  show ?thesis using loop unfolding F0 FH .
qed

lemma miu_col_step_ok:
  assumes "k < length (g p)"
    and "c = [(r1 + int k mod 2, if k < 2 then 1 else - 1), (r2, g p ! k), (r4, 1)]"
    and "0 \<le> r1" "r1 + 1 \<le> int_max" "0 \<le> r4" "r4 + 1 \<le> int_max"
    and "int (length (concat (cs @ [c]))) \<le> int_max"
  shows "miu_col_step p r1 r2 k
           (col_vals cs, col_rows cs, starts cs, r4, int (length (concat cs)))
         = Some (col_vals (cs @ [c]), col_rows (cs @ [c]), starts (cs @ [c]), r4 + 1,
                 int (length (concat (cs @ [c]))))"
proof -
  have "0 \<le> int k mod 2" "int k mod 2 \<le> 1" by simp_all
  then have w1: "to_int (r1 + int k mod 2) = r1 + int k mod 2"
    using assms(3,4) by (intro to_int_id) linarith+
  have w: "to_int (r4 + 1) = r4 + 1"
    "to_int (int (length (concat cs)) + 3) = int (length (concat cs)) + 3"
    using assms(2,5-7) by (intro to_int_id; simp)+
  show ?thesis
    using assms(1,2)
    by (simp add: miu_col_step_def vec_at_def col_vals_snoc col_rows_snoc starts_snoc Let_def
          w w1)
qed

lemma miu_obstacle_step_ok:
  assumes ok: "object_ok p" and i: "i < nat (horizon p + 1)" and j: "j < nat (obstacles_num p)"
    and fit: "int (length (concat (cs @ map (miu_col p i j) [0..<4]))) \<le> int_max"
  shows "miu_obstacle_step p j
           (col_vals cs, col_rows cs, starts cs,
            2 * (int i * obstacles_num p + int j),
            2 * obstacles_num p * (horizon p + 1) + (int i * obstacles_num p + int j),
            3 * obstacles_num p * (horizon p + 1) + lambda_horizon p
              + 4 * (int i * obstacles_num p + int j),
            int (length (concat cs)))
         = Some (col_vals (cs @ map (miu_col p i j) [0..<4]),
            col_rows (cs @ map (miu_col p i j) [0..<4]),
            starts (cs @ map (miu_col p i j) [0..<4]),
            2 * (int i * obstacles_num p + int (Suc j)),
            2 * obstacles_num p * (horizon p + 1) + (int i * obstacles_num p + int (Suc j)),
            3 * obstacles_num p * (horizon p + 1) + lambda_horizon p
              + 4 * (int i * obstacles_num p + int (Suc j)),
            int (length (concat (cs @ map (miu_col p i j) [0..<4]))))"
proof -
  let ?r1 = "2 * (int i * obstacles_num p + int j)"
  let ?r2 = "2 * obstacles_num p * (horizon p + 1) + (int i * obstacles_num p + int j)"
  let ?r4 = "3 * obstacles_num p * (horizon p + 1) + lambda_horizon p
              + 4 * (int i * obstacles_num p + int j)"
  let ?C = "\<lambda>k. cs @ map (miu_col p i j) [0..<k]"
  let ?F = "\<lambda>k. (col_vals (?C k), col_rows (?C k), starts (?C k), ?r4 + int k,
                 int (length (concat (?C k))))"
  note b = object_ok_bounds[OF ok]
  note pb = pair_bound[OF ok i j]
  have N0: "0 \<le> obstacles_num p" using ok unfolding object_ok_def by blast
  have nv: "num_of_variables p = lambda_horizon p + miu_horizon p"
    "miu_horizon p = 4 * obstacles_num p * (horizon p + 1)"
    using ok unfolding object_ok_def by blast+
  have pair0: "0 \<le> int i * obstacles_num p + int j" using N0 by simp
  have r1fit: "0 \<le> ?r1" "?r1 + 2 \<le> int_max"
    using pair0 pb b(8,5,9) by (simp_all add: algebra_simps)
  have r2fit: "0 \<le> ?r2" "?r2 + 1 \<le> int_max"
    using pair0 pb b(8,5,9) by (simp_all add: algebra_simps)
  have r4fit: "0 \<le> ?r4" "?r4 + 4 \<le> int_max"
    using pair0 pb b(8,3,9) nv by (simp_all add: algebra_simps)
  have g4: "length (g p) = 4" using ok by (simp add: object_ok_def)
  have step: "miu_col_step p ?r1 ?r2 k (?F k) = Some (?F (Suc k))" if "k < 4" for k
  proof -
    have eq: "?C (Suc k) = ?C k @ [miu_col p i j k]" by simp
    have r: "?r4 + int (Suc k) = ?r4 + int k + 1" by simp
    have "length (concat (?C (Suc k))) \<le> length (concat (?C 4))"
      using length_concat_map_upt_mono[of "Suc k" 4 "miu_col p i j"] that
      by (simp del: upt_Suc)
    then have len: "int (length (concat (?C k @ [miu_col p i j k]))) \<le> int_max"
      using fit unfolding eq by linarith
    have kk: "int k + 1 \<le> 4" using that by linarith
    show ?thesis
      unfolding eq r
      using that len kk r1fit r4fit
      by (intro miu_col_step_ok) (simp_all add: g4 miu_col_def Let_def)
  qed
  have loop: "for_loop 0 4 (miu_col_step p ?r1 ?r2) (?F 0) = Some (?F 4)"
    by (rule for_loop_closed) (simp_all only: step le0)
  have loop': "for_loop 0 4 (miu_col_step p ?r1 ?r2)
                 (col_vals cs, col_rows cs, starts cs, ?r4, int (length (concat cs)))
               = Some (col_vals (cs @ map (miu_col p i j) [0..<4]),
                       col_rows (cs @ map (miu_col p i j) [0..<4]),
                       starts (cs @ map (miu_col p i j) [0..<4]), ?r4 + 4,
                       int (length (concat (cs @ map (miu_col p i j) [0..<4]))))"
    using loop by simp
  have w: "to_int (?r1 + 2) = ?r1 + 2" "to_int (?r2 + 1) = ?r2 + 1"
    using r1fit r2fit by (intro to_int_id; linarith)+
  show ?thesis
    unfolding miu_obstacle_step_def
    apply (simp only: prod.case Option.bind.bind_lunit loop' w)
    apply (simp add: algebra_simps)
    done
qed

lemma miu_obstacle_loop:
  assumes ok: "object_ok p" and i: "i < nat (horizon p + 1)"
    and fit: "int (length (concat (cs @ A_miu_step p i))) \<le> int_max"
  shows "for_loop 0 (nat (obstacles_num p)) (miu_obstacle_step p)
           (col_vals cs, col_rows cs, starts cs,
            2 * (int i * obstacles_num p),
            2 * obstacles_num p * (horizon p + 1) + int i * obstacles_num p,
            3 * obstacles_num p * (horizon p + 1) + lambda_horizon p
              + 4 * (int i * obstacles_num p),
            int (length (concat cs)))
         = Some (col_vals (cs @ A_miu_step p i), col_rows (cs @ A_miu_step p i),
            starts (cs @ A_miu_step p i),
            2 * (int (Suc i) * obstacles_num p),
            2 * obstacles_num p * (horizon p + 1) + int (Suc i) * obstacles_num p,
            3 * obstacles_num p * (horizon p + 1) + lambda_horizon p
              + 4 * (int (Suc i) * obstacles_num p),
            int (length (concat (cs @ A_miu_step p i))))"
    (is "for_loop 0 ?N ?body ?s0 = Some ?s1")
proof -
  let ?f = "\<lambda>j. map (miu_col p i j) [0..<4]"
  let ?C = "\<lambda>j. cs @ concat (map ?f [0..<j])"
  let ?F = "\<lambda>j. (col_vals (?C j), col_rows (?C j), starts (?C j),
            2 * (int i * obstacles_num p + int j),
            2 * obstacles_num p * (horizon p + 1) + (int i * obstacles_num p + int j),
            3 * obstacles_num p * (horizon p + 1) + lambda_horizon p
              + 4 * (int i * obstacles_num p + int j),
            int (length (concat (?C j))))"
  have step: "?body j (?F j) = Some (?F (Suc j))" if "j < ?N" for j
  proof -
    have eq: "?C (Suc j) = ?C j @ map (miu_col p i j) [0..<4]" by simp
    have "length (concat (?C (Suc j))) \<le> length (concat (cs @ A_miu_step p i))"
      using length_concat_upt_mono[of "Suc j" ?N ?f] that
      by (simp add: A_miu_step_def del: upt_Suc)
    then have "int (length (concat (?C j @ map (miu_col p i j) [0..<4]))) \<le> int_max"
      using fit unfolding eq by linarith
    then show ?thesis unfolding eq by (intro miu_obstacle_step_ok[OF ok i that])
  qed
  have loop: "for_loop 0 ?N ?body (?F 0) = Some (?F ?N)"
    by (rule for_loop_closed) (simp_all only: step le0)
  have N: "int ?N = obstacles_num p" using ok by (simp add: object_ok_def)
  have F0: "?F 0 = ?s0" by simp
  have N0: "0 \<le> obstacles_num p" using ok by (simp add: object_ok_def)
  have FN: "?F ?N = ?s1" using N0 by (simp add: N A_miu_step_def algebra_simps)
  show ?thesis using loop unfolding F0 FN .
qed

lemma miu_horizon_loop:
  assumes ok: "object_ok p"
    and fit: "int (length (concat (cs @ concat (map (A_miu_step p) [0..<nat (horizon p + 1)]))))
                \<le> int_max"
  shows "for_loop 0 (nat (horizon p + 1)) (\<lambda>i. for_loop 0 (nat (obstacles_num p)) (miu_obstacle_step p))
           (col_vals cs, col_rows cs, starts cs, 0,
            2 * obstacles_num p * (horizon p + 1),
            3 * obstacles_num p * (horizon p + 1) + lambda_horizon p,
            int (length (concat cs)))
         = Some (col_vals (cs @ concat (map (A_miu_step p) [0..<nat (horizon p + 1)])),
                 col_rows (cs @ concat (map (A_miu_step p) [0..<nat (horizon p + 1)])),
                 starts (cs @ concat (map (A_miu_step p) [0..<nat (horizon p + 1)])),
                 2 * ((horizon p + 1) * obstacles_num p),
                 2 * obstacles_num p * (horizon p + 1) + (horizon p + 1) * obstacles_num p,
                 3 * obstacles_num p * (horizon p + 1) + lambda_horizon p
                   + 4 * ((horizon p + 1) * obstacles_num p),
                 int (length (concat (cs @ concat (map (A_miu_step p) [0..<nat (horizon p + 1)])))))"
    (is "for_loop 0 ?H ?body ?s0 = Some ?s1")
proof -
  let ?C = "\<lambda>i. cs @ concat (map (A_miu_step p) [0..<i])"
  let ?F = "\<lambda>i. (col_vals (?C i), col_rows (?C i), starts (?C i),
            2 * (int i * obstacles_num p),
            2 * obstacles_num p * (horizon p + 1) + int i * obstacles_num p,
            3 * obstacles_num p * (horizon p + 1) + lambda_horizon p
              + 4 * (int i * obstacles_num p),
            int (length (concat (?C i))))"
  have step: "?body i (?F i) = Some (?F (Suc i))" if "i < ?H" for i
  proof -
    have eq: "?C (Suc i) = ?C i @ A_miu_step p i" by simp
    have "length (concat (?C (Suc i))) \<le> length (concat (?C ?H))"
      using length_concat_upt_mono[of "Suc i" ?H "A_miu_step p"] that by simp
    then have "int (length (concat (?C i @ A_miu_step p i))) \<le> int_max"
      using fit unfolding eq by linarith
    then show ?thesis unfolding eq by (intro miu_obstacle_loop[OF ok that])
  qed
  have loop: "for_loop 0 ?H ?body (?F 0) = Some (?F ?H)"
    by (rule for_loop_closed) (simp_all only: step le0)
  have H: "int ?H = horizon p + 1" using ok by (simp add: object_ok_def)
  have F0: "?F 0 = ?s0" by simp
  have H0: "0 \<le> horizon p + 1" using ok by (simp add: object_ok_def)
  have FH: "?F ?H = ?s1" using H0 by (simp add: H)
  show ?thesis using loop unfolding F0 FH .
qed

lemma length_col_vals_rows: "length (col_vals cs) = length (col_rows cs)"
  by (simp add: col_vals_def col_rows_def length_concat comp_def)

lemma length_A_lambda_step:
  assumes ok: "object_ok p"
  shows "length (A_lambda_step p i) = nat (obstacles_edges_sum p)"
proof -
  have "\<forall>j<nat (obstacles_num p). 0 \<le> edges_num (obstacles_edges_num p) j"
    using ok by (auto simp: object_ok_def less_imp_le)
  then show ?thesis
    using ok
    by (simp add: A_lambda_step_def A_lambda_obstacle_def length_concat_upt nat_sum_nonneg
          object_ok_def edges_before_def)
qed

lemma length_A_miu_step: "length (A_miu_step p i) = 4 * nat (obstacles_num p)"
  by (simp add: A_miu_step_def length_concat_upt)

lemma length_A_lambda_cols:
  assumes ok: "object_ok p"
  shows "length (concat (map (A_lambda_step p) [0..<nat (horizon p + 1)])) = nat (lambda_horizon p)"
proof -
  have "0 \<le> horizon p + 1" "lambda_horizon p = obstacles_edges_sum p * (horizon p + 1)"
    using ok by (simp_all add: object_ok_def)
  moreover have "0 \<le> obstacles_edges_sum p"
    using ok by (simp add: object_ok_def flip: of_nat_0_le_iff)
  ultimately show ?thesis
    by (simp add: length_concat_upt length_A_lambda_step[OF ok] nat_mult_distrib mult.commute)
qed

lemma length_A_miu_cols:
  assumes ok: "object_ok p"
  shows "length (concat (map (A_miu_step p) [0..<nat (horizon p + 1)])) = nat (miu_horizon p)"
proof -
  have "0 \<le> horizon p + 1" "0 \<le> obstacles_num p"
    "miu_horizon p = 4 * obstacles_num p * (horizon p + 1)"
    using ok by (simp_all add: object_ok_def)
  then show ?thesis
    by (simp add: length_concat_upt length_A_miu_step nat_mult_distrib mult.commute)
qed

lemma length_A_cols:
  assumes ok: "object_ok p"
  shows "int (length (A_cols p)) = num_of_variables p"
proof -
  have "0 \<le> lambda_horizon p" "0 \<le> miu_horizon p"
    "num_of_variables p = lambda_horizon p + miu_horizon p"
    using ok length_P_lambda_cols[OF ok] by (simp_all add: object_ok_def)
  then show ?thesis
    by (simp add: A_cols_def length_A_lambda_cols[OF ok] length_A_miu_cols[OF ok])
qed

lemma assemble_constraint_ok:
  assumes ok: "object_ok p" and fit: "int (length (concat (A_cols p))) \<le> int_max"
  shows "assemble_constraint p = Some (col_vals (A_cols p), col_rows (A_cols p), col_ptr (A_cols p))"
proof -
  let ?L = "concat (map (A_lambda_step p) [0..<nat (horizon p + 1)])"
  have c1: "CHECK (length (col_vals (A_cols p)) = length (col_rows (A_cols p))) = Some ()"
    by (simp add: CHECK_def length_col_vals_rows)
  have c2: "CHECK (int (length (col_ptr (A_cols p))) = num_of_variables p + 1) = Some ()"
    using length_A_cols[OF ok] by (simp add: CHECK_def length_col_ptr)
  have ptr: "starts (A_cols p) @ [int (length (concat (A_cols p)))] = col_ptr (A_cols p)"
    by (simp add: col_ptr_def)
  have fitL: "int (length (concat ?L)) \<le> int_max"
    using fit by (simp add: A_cols_def)
  have fitM: "int (length (concat (?L @ concat (map (A_miu_step p) [0..<nat (horizon p + 1)]))))
                \<le> int_max"
    using fit by (simp add: A_cols_def)
  show ?thesis
    unfolding assemble_constraint_def Let_def object_ok_to_int[OF ok]
    by (simp only: Option.bind.bind_lunit prod.case lambda_horizon_loop[OF ok fitL]
          miu_horizon_loop[OF ok fitM] A_cols_def[symmetric] ptr c1 c2)
qed

lemma col_ptr_map: "col_ptr (map (map f) cs) = col_ptr cs"
  by (simp add: col_ptr_def starts_def length_concat comp_def flip: take_map)

lemma csc_column_cols:
  assumes "k < length cs"
  shows "csc_column (col_vals cs, col_rows cs, col_ptr cs) k = cs ! k"
proof -
  have "csc_column (concat (map (map snd) cs), concat (map (map fst) cs),
          col_ptr (map (map fst) cs)) k
        = zip (map (map fst) cs ! k) (map (map snd) cs ! k)"
    by (rule csc_column_concat) (use assms in \<open>simp_all add: comp_def\<close>)
  then show ?thesis
    using assms by (simp add: col_vals_def col_rows_def col_ptr_map zip_map_fst_snd)
qed

lemma nat_edges_before:
  assumes ok: "object_ok p" and j: "j \<le> nat (obstacles_num p)"
  shows "(\<Sum>j'<j. nat (edges_num (obstacles_edges_num p) j'))
         = nat (edges_before (obstacles_edges_num p) j)"
proof -
  have "\<forall>j'<j. 0 \<le> edges_num (obstacles_edges_num p) j'"
    using ok j by (auto simp: object_ok_def less_imp_le)
  then show ?thesis by (simp add: nat_sum_nonneg edges_before_def)
qed

lemma lambda_index_less:
  assumes ok: "object_ok p" and i: "i < nat (horizon p + 1)" and j: "j < nat (obstacles_num p)"
    and k: "k < nat (edges_num (obstacles_edges_num p) j)"
  shows "nat (edges_before (obstacles_edges_num p) j) + k < nat (obstacles_edges_sum p)"
    and "lambda_index p i j k < nat (lambda_horizon p)"
proof -
  note ea = object_ok_edges_at[OF ok j]
  show a: "nat (edges_before (obstacles_edges_num p) j) + k < nat (obstacles_edges_sum p)"
    using ea k by linarith
  have "lambda_index p i j k < Suc i * nat (obstacles_edges_sum p)"
    using a by (simp add: lambda_index_def)
  also have "\<dots> \<le> nat (horizon p + 1) * nat (obstacles_edges_sum p)"
    using i by (intro mult_le_mono1) simp
  also have "\<dots> = nat (lambda_horizon p)"
    using ok by (simp add: object_ok_def nat_mult_distrib mult.commute)
  finally show "lambda_index p i j k < nat (lambda_horizon p)" .
qed

lemma A_lambda_cols_nth:
  assumes ok: "object_ok p" and i: "i < nat (horizon p + 1)" and j: "j < nat (obstacles_num p)"
    and k: "k < nat (edges_num (obstacles_edges_num p) j)"
  shows "concat (map (A_lambda_step p) [0..<nat (horizon p + 1)]) ! lambda_index p i j k
         = lambda_col p i j k"
proof -
  let ?e = "\<lambda>j. nat (edges_num (obstacles_edges_num p) j)"
  have inner: "A_lambda_step p i ! (nat (edges_before (obstacles_edges_num p) j) + k)
               = lambda_col p i j k"
    using nth_concat_upt[of j "nat (obstacles_num p)" k "A_lambda_obstacle p i"] j k
      nat_edges_before[OF ok, of j]
    by (simp add: A_lambda_step_def A_lambda_obstacle_def)
  have "concat (map (A_lambda_step p) [0..<nat (horizon p + 1)])
          ! ((\<Sum>i'<i. length (A_lambda_step p i')) + (nat (edges_before (obstacles_edges_num p) j) + k))
        = A_lambda_step p i ! (nat (edges_before (obstacles_edges_num p) j) + k)"
    by (rule nth_concat_upt)
       (use i lambda_index_less(1)[OF ok i j k] in \<open>simp_all add: length_A_lambda_step[OF ok]\<close>)
  then show ?thesis
    using inner by (simp add: length_A_lambda_step[OF ok] lambda_index_def add.assoc)
qed

lemma A_cols_lambda:
  assumes ok: "object_ok p" and i: "i < nat (horizon p + 1)" and j: "j < nat (obstacles_num p)"
    and k: "k < nat (edges_num (obstacles_edges_num p) j)"
  shows "A_cols p ! lambda_index p i j k = lambda_col p i j k"
  using A_lambda_cols_nth[OF assms] lambda_index_less(2)[OF assms]
  by (simp add: A_cols_def nth_append length_A_lambda_cols[OF ok])

lemma A_cols_miu:
  assumes ok: "object_ok p" and i: "i < nat (horizon p + 1)" and j: "j < nat (obstacles_num p)"
    and k: "k < 4"
  shows "A_cols p ! miu_index p i j k = miu_col p i j k"
proof -
  let ?N = "nat (obstacles_num p)"
  have inner: "A_miu_step p i ! (4 * j + k) = miu_col p i j k"
    using nth_concat_upt[of j ?N k "\<lambda>j. map (miu_col p i j) [0..<4]"] j k
    by (simp add: A_miu_step_def mult.commute)
  have "4 * j + k < 4 * ?N" using j k by simp
  then have "concat (map (A_miu_step p) [0..<nat (horizon p + 1)])
          ! ((\<Sum>i'<i. length (A_miu_step p i')) + (4 * j + k))
        = A_miu_step p i ! (4 * j + k)"
    by (intro nth_concat_upt) (use i in \<open>simp_all add: length_A_miu_step\<close>)
  then show ?thesis
    using inner
    by (simp add: A_cols_def nth_append length_A_lambda_cols[OF ok] length_A_miu_step
          miu_index_def add.assoc)
qed

lemma miu_index_less:
  assumes ok: "object_ok p" and i: "i < nat (horizon p + 1)" and j: "j < nat (obstacles_num p)"
    and k: "k < 4"
  shows "miu_index p i j k < length (A_cols p)"
proof -
  let ?N = "nat (obstacles_num p)"
  have "i * (4 * ?N) + 4 * j + k < Suc i * (4 * ?N)" using j k by simp
  also have "\<dots> \<le> nat (horizon p + 1) * (4 * ?N)"
    using i by (intro mult_le_mono1) simp
  also have "\<dots> = nat (miu_horizon p)"
    using ok by (simp add: object_ok_def nat_mult_distrib mult.commute)
  finally show ?thesis
    by (simp add: A_cols_def length_A_lambda_cols[OF ok] length_A_miu_cols[OF ok] miu_index_def)
qed

section \<open>Reading the columns of the objective matrix\<close>

lemma P_lambda_rows_nth:
  assumes ok: "object_ok p" and i: "i < nat (horizon p + 1)" and j: "j < nat (obstacles_num p)"
    and k: "k < nat (edges_num (obstacles_edges_num p) j)"
  shows "P_rows p ! lambda_index p i j k
         = P_col_rows (int i * obstacles_edges_sum p + edges_before (obstacles_edges_num p) j)
             (edges_num (obstacles_edges_num p) j)"
proof -
  let ?w = "nat (edges_before (obstacles_edges_num p) j) + k"
  have inner: "P_step_rows p i ! ?w
               = P_col_rows (int i * obstacles_edges_sum p + edges_before (obstacles_edges_num p) j)
                   (edges_num (obstacles_edges_num p) j)"
    using nth_concat_upt[of j "nat (obstacles_num p)" k "P_obstacle_rows p i"] j k
      nat_edges_before[OF ok, of j]
    by (simp add: P_step_rows_def length_P_obstacle_rows) (simp add: P_obstacle_rows_def Let_def)
  have "concat (map (P_step_rows p) [0..<nat (horizon p + 1)])
          ! ((\<Sum>i'<i. length (P_step_rows p i')) + ?w) = P_step_rows p i ! ?w"
    by (rule nth_concat_upt)
       (use i lambda_index_less(1)[OF ok i j k] in \<open>simp_all add: length_P_step_rows[OF ok]\<close>)
  moreover have "lambda_index p i j k < length (concat (map (P_step_rows p) [0..<nat (horizon p + 1)]))"
    using lambda_index_less(2)[OF assms] length_P_lambda_cols[OF ok] by linarith
  ultimately show ?thesis
    using inner
    by (simp add: P_rows_def nth_append length_P_step_rows[OF ok] lambda_index_def add.assoc)
qed

lemma length_P_step_vals:
  assumes ok: "object_ok p"
  shows "length (P_step_vals p) = nat (obstacles_edges_sum p)"
  using length_P_step_rows[OF ok, of 0] map_length_P_step[of p 0]
  by (metis length_map)

lemma P_lambda_vals_nth:
  assumes ok: "object_ok p" and i: "i < nat (horizon p + 1)" and j: "j < nat (obstacles_num p)"
    and k: "k < nat (edges_num (obstacles_edges_num p) j)"
  shows "P_vals p ! lambda_index p i j k
         = map (\<lambda>r. gram p j r k) [0..<nat (edges_num (obstacles_edges_num p) j)]"
proof -
  let ?w = "nat (edges_before (obstacles_edges_num p) j) + k"
  have lo: "length (P_obstacle_vals p j') = nat (edges_num (obstacles_edges_num p) j')" for j'
    by (simp add: P_obstacle_vals_def Let_def)
  have inner: "P_step_vals p ! ?w = map (\<lambda>r. gram p j r k) [0..<nat (edges_num (obstacles_edges_num p) j)]"
    using nth_concat_upt[of j "nat (obstacles_num p)" k "P_obstacle_vals p"] j k
      nat_edges_before[OF ok, of j]
    by (simp add: P_step_vals_def lo) (simp add: P_obstacle_vals_def Let_def)
  have "concat (map (\<lambda>i. P_step_vals p) [0..<nat (horizon p + 1)])
          ! ((\<Sum>i'<i. length (P_step_vals p)) + ?w) = P_step_vals p ! ?w"
    by (rule nth_concat_upt[where f = "\<lambda>i. P_step_vals p"])
       (use i lambda_index_less(1)[OF ok i j k] in \<open>simp_all add: length_P_step_vals[OF ok]\<close>)
  moreover have "lambda_index p i j k < length (concat (map (\<lambda>i. P_step_vals p) [0..<nat (horizon p + 1)]))"
    using lambda_index_less(2)[OF assms] ok
    by (simp add: length_concat_upt length_P_step_vals[OF ok] object_ok_def nat_mult_distrib
          mult.commute)
  ultimately show ?thesis
    using inner
    by (simp add: P_vals_def nth_append length_P_step_vals[OF ok] lambda_index_def add.assoc)
qed

lemma P_column_lambda:
  assumes ok: "object_ok p" and i: "i < nat (horizon p + 1)" and j: "j < nat (obstacles_num p)"
    and k: "k < nat (edges_num (obstacles_edges_num p) j)"
  shows "csc_column (concat (P_vals p), concat (P_rows p), col_ptr (P_rows p)) (lambda_index p i j k)
         = map (\<lambda>r. (int (lambda_index p i j r), gram p j r k))
             [0..<nat (edges_num (obstacles_edges_num p) j)]"
proof -
  have "num_of_variables p = lambda_horizon p + miu_horizon p" "0 \<le> miu_horizon p"
    using ok by (simp_all add: object_ok_def)
  then have lt: "lambda_index p i j k < length (P_rows p)"
    using lambda_index_less(2)[OF assms] length_P_rows[OF ok] by linarith
  have S0: "0 \<le> obstacles_edges_sum p"
    using ok by (simp add: object_ok_def flip: of_nat_0_le_iff)
  have idx: "int r + (int i * obstacles_edges_sum p + edges_before (obstacles_edges_num p) j)
             = int (lambda_index p i j r)" for r
    using S0 object_ok_edges_at(3)[OF ok j] by (simp add: lambda_index_def)
  show ?thesis
    unfolding csc_column_concat[OF lt map_length_P] P_lambda_rows_nth[OF assms]
      P_lambda_vals_nth[OF assms] P_col_rows_def
    by (simp add: zip_map_map zip_same_conv_map idx)
qed

lemma P_column_miu:
  assumes ok: "object_ok p" and v: "nat (lambda_horizon p) \<le> v" "int v < num_of_variables p"
  shows "csc_column (concat (P_vals p), concat (P_rows p), col_ptr (P_rows p)) v = []"
proof -
  have lt: "v < length (P_rows p)" using v length_P_rows[OF ok] by linarith
  have len: "length (concat (map (P_step_rows p) [0..<nat (horizon p + 1)])) = nat (lambda_horizon p)"
    using length_P_lambda_cols[OF ok] by linarith
  have "P_rows p ! v = []"
    using v lt unfolding P_rows_def by (simp add: nth_append len)
  then show ?thesis
    unfolding csc_column_concat[OF lt map_length_P] by simp
qed

text \<open>Every \<open>\<lambda>\<close> index is the index of one step, obstacle and edge.\<close>

lemma split_offset:
  fixes a :: "nat \<Rightarrow> nat"
  assumes "w < (\<Sum>j<n. a j)"
  shows "\<exists>j k. j < n \<and> k < a j \<and> w = (\<Sum>j'<j. a j') + k"
  using assms
proof (induction n)
  case 0 then show ?case by simp
next
  case (Suc n)
  show ?case
  proof (cases "w < (\<Sum>j<n. a j)")
    case True
    then obtain j k where "j < n" "k < a j" "w = (\<Sum>j'<j. a j') + k" using Suc.IH by blast
    then show ?thesis using less_Suc_eq by blast
  next
    case False
    then have "w - (\<Sum>j<n. a j) < a n" "w = (\<Sum>j'<n. a j') + (w - (\<Sum>j<n. a j))"
      using Suc.prems by simp_all
    then show ?thesis by blast
  qed
qed

lemma lambda_index_onto:
  assumes ok: "object_ok p" and v: "v < nat (lambda_horizon p)"
  shows "\<exists>i j k. i < nat (horizon p + 1) \<and> j < nat (obstacles_num p)
            \<and> k < nat (edges_num (obstacles_edges_num p) j) \<and> v = lambda_index p i j k"
proof -
  let ?S = "nat (obstacles_edges_sum p)" and ?N = "nat (obstacles_num p)"
  have lh: "nat (lambda_horizon p) = nat (horizon p + 1) * ?S"
    using length_A_lambda_cols[OF ok] by (simp add: length_concat_upt length_A_lambda_step[OF ok])
  then have S: "0 < ?S" using v by (cases "?S = 0") simp_all
  have i: "v div ?S < nat (horizon p + 1)"
    using v lh S by (simp add: less_mult_imp_div_less)
  have "v mod ?S < (\<Sum>j<?N. nat (edges_num (obstacles_edges_num p) j))"
    using S nat_edges_before[OF ok, of ?N] ok by (simp add: object_ok_def)
  then obtain j k where jk: "j < ?N" "k < nat (edges_num (obstacles_edges_num p) j)"
      "v mod ?S = (\<Sum>j'<j. nat (edges_num (obstacles_edges_num p) j')) + k"
    using split_offset by blast
  have "v = v div ?S * ?S + v mod ?S" by simp
  also have "v mod ?S = nat (edges_before (obstacles_edges_num p) j) + k"
    using jk(3) nat_edges_before[OF ok, of j] jk(1) by simp
  finally have "v = lambda_index p (v div ?S) j k"
    by (simp only: lambda_index_def add.assoc)
  then show ?thesis using i jk by blast
qed

section \<open>The numbers of stored entries\<close>

lemma length_concat_const:
  assumes "\<forall>c\<in>set cs. length c = k"
  shows "length (concat cs) = k * length cs"
  using assms by (induction cs) simp_all

lemma length_concat_concat_upt:
  "length (concat (concat (map f [0..<n]))) = (\<Sum>k<n. length (concat (f k)))"
  by (induction n) simp_all

lemma objective_entries_object:
  assumes ok: "object_ok p"
  shows "int (length (concat (P_rows p)))
         = objective_entries (nat (horizon p)) (obstacles_edges_num p) (nat (obstacles_num p))"
proof -
  let ?E = "obstacles_edges_num p" and ?N = "nat (obstacles_num p)"
  have e0: "0 \<le> edges_num ?E j" if "j < ?N" for j
    using object_ok_edges_at(2)[OF ok that] by simp
  have ob: "int (length (concat (P_obstacle_rows p i j))) = edges_num ?E j * edges_num ?E j"
    if "j < ?N" for i j
    using e0[OF that]
    by (simp add: P_obstacle_rows_def Let_def P_col_rows_def
          length_concat_const[where k = "nat (edges_num ?E j)"] nat_mult_distrib)
  have st: "int (length (concat (P_step_rows p i))) = (\<Sum>j<?N. edges_num ?E j * edges_num ?E j)"
    for i
    by (simp add: P_step_rows_def length_concat_concat_upt ob)
  have h0: "0 \<le> horizon p" using ok unfolding object_ok_def by blast
  have "int (length (concat (P_rows p)))
        = (\<Sum>i<nat (horizon p + 1). \<Sum>j<?N. edges_num ?E j * edges_num ?E j)"
    by (simp add: P_rows_def length_concat_concat_upt st)
  also have "\<dots> = (horizon p + 1) * (\<Sum>j<?N. edges_num ?E j * edges_num ?E j)"
    using h0 by simp
  finally show ?thesis using h0 by (simp add: objective_entries_def)
qed

lemma constraint_entries_object:
  assumes ok: "object_ok p"
  shows "int (length (concat (A_cols p)))
         = constraint_entries (nat (horizon p)) (obstacles_edges_num p) (nat (obstacles_num p))"
proof -
  let ?L = "concat (map (A_lambda_step p) [0..<nat (horizon p + 1)])"
  let ?M = "concat (map (A_miu_step p) [0..<nat (horizon p + 1)])"
  have "\<forall>c\<in>set ?L. length c = 4"
    by (auto simp: A_lambda_step_def A_lambda_obstacle_def lambda_col_def Let_def)
  then have L: "length (concat ?L) = 4 * nat (lambda_horizon p)"
    using length_concat_const[of ?L 4] length_A_lambda_cols[OF ok] by simp
  have "\<forall>c\<in>set ?M. length c = 3"
    by (auto simp: A_miu_step_def miu_col_def Let_def)
  then have M: "length (concat ?M) = 3 * nat (miu_horizon p)"
    using length_concat_const[of ?M 3] length_A_miu_cols[OF ok] by simp
  note b = object_ok_bounds[OF ok]
  have f: "0 \<le> horizon p" "0 \<le> obstacles_num p"
    "lambda_horizon p = obstacles_edges_sum p * (horizon p + 1)"
    "miu_horizon p = 4 * obstacles_num p * (horizon p + 1)"
    "obstacles_edges_sum p = edges_before (obstacles_edges_num p) (nat (obstacles_num p))"
    using ok unfolding object_ok_def by blast+
  have "int (length (concat (A_cols p))) = 4 * lambda_horizon p + 3 * miu_horizon p"
    using b(3,4) by (simp add: A_cols_def L M)
  then show ?thesis
    using f by (simp add: constraint_entries_def)
qed

lemma construct_entries_ok:
  assumes "valid_input h ego_arg E N A b x" "entries_fit h E N"
    and "construct h t ego_arg E N A b x = Some p"
  shows "object_ok p" "entries_ok p"
proof -
  obtain q where q: "construct h t ego_arg E N A b x = Some q" "object_ok q"
      "horizon q = int h" "obstacles_num q = int N" "obstacles_edges_num q = E"
    using construct_object_ok[OF assms(1)] by blast
  then have pq: "p = q" using assms(3) by simp
  show "object_ok p" using q(2) pq by simp
  show "entries_ok p"
    using assms(2) objective_entries_object[OF q(2)] constraint_entries_object[OF q(2)]
    by (simp add: entries_ok_def entries_fit_def pq q(3,4,5))
qed

section \<open>The solve entry point\<close>

lemma populate_data_ok:
  assumes ok: "object_ok p" and fit: "entries_ok p"
  shows "populate_data p =
     Some \<lparr>data_n = num_of_variables p, data_m = num_of_constraints p,
           data_P = csc_matrix (num_of_variables p) (num_of_variables p)
                      (length (concat (P_vals p))) (concat (P_vals p)) (concat (P_rows p))
                      (col_ptr (P_rows p)),
           data_q = replicate (nat (num_of_variables p)) 0,
           data_A = csc_matrix (num_of_constraints p) (num_of_variables p)
                      (length (col_vals (A_cols p))) (col_vals (A_cols p)) (col_rows (A_cols p))
                      (col_ptr (A_cols p)),
           data_l = replicate (nat (num_of_constraints p)) 0,
           data_u = map (\<lambda>i. if int i < 2 * obstacles_num p * (horizon p + 1) then 0
                              else 2 * 10 ^ 19) [0..<nat (num_of_constraints p)]\<rparr>"
proof -
  have q: "for_loop 0 (nat (num_of_variables p)) (\<lambda>i q. Some (q @ [0::real])) []
           = Some (replicate (nat (num_of_variables p)) 0)"
    using for_loop_append_const[of 0 "nat (num_of_variables p)" "0::real" "[]"] by simp
  let ?u = "\<lambda>i. if int i < 2 * obstacles_num p * (horizon p + 1) then 0 else (2 * 10 ^ 19 :: real)"
  let ?body = "\<lambda>i (lb, ub).
            Some (lb @ [if 2 * obstacles_num p * (horizon p + 1) \<le> int i
                           \<and> int i < 3 * obstacles_num p * (horizon p + 1)
                        then 0 else (0 :: real)],
                  ub @ [if int i < 2 * obstacles_num p * (horizon p + 1)
                        then 0 else (2 * 10 ^ 19 :: real)])"
  let ?F = "\<lambda>k. (replicate k (0::real), map ?u [0..<k])"
  have "for_loop 0 (nat (num_of_constraints p)) ?body (?F 0) = Some (?F (nat (num_of_constraints p)))"
    by (rule for_loop_closed) (simp_all add: Let_def replicate_append_same)
  then have b: "for_loop 0 (nat (num_of_constraints p)) ?body ([], [])
                = Some (?F (nat (num_of_constraints p)))"
    by simp
  have fitP: "int (length (concat (P_rows p))) \<le> int_max"
    and fitA: "int (length (concat (A_cols p))) \<le> int_max"
    using fit by (simp_all add: entries_ok_def)
  show ?thesis
    unfolding populate_data_def Let_def object_ok_to_int[OF ok]
    by (simp only: Option.bind.bind_lunit prod.case assemble_P_ok[OF ok fitP]
          assemble_constraint_ok[OF ok fitA] q b)
qed

lemma extracted_dims [simp]:
  "nrows (extracted x start rws M i j) = nrows M" "ncols (extracted x start rws M i j) = ncols M"
  by (simp_all add: extracted_def)

lemma extracted_0: "extracted x start rws M 0 0 = M"
  by (simp add: extracted_def)

lemma extracted_next: "extracted x start rws M i rws = extracted x start rws M (Suc i) 0"
  by (auto simp: extracted_def fun_eq_iff less_Suc_eq)

lemma extract_step_ok:
  assumes "j < rws" "rws \<le> nrows M" "i < ncols M" "start + i * rws + j < length x"
    and "int (start + i * rws + j) + 1 \<le> int_max"
  shows "extract_step x i j (extracted x start rws M i j, int (start + i * rws + j))
         = Some (extracted x start rws M i (Suc j), int (start + i * rws + Suc j))"
proof -
  have "(coeff (extracted x start rws M i j))((j, i) := x ! (start + i * rws + j))
        = coeff (extracted x start rws M i (Suc j))"
    by (auto simp: extracted_def fun_eq_iff less_Suc_eq)
  moreover have "to_int (int (start + i * rws + j) + 1) = int (start + i * rws + j) + 1"
    using assms(5) by (intro to_int_id) simp_all
  ultimately show ?thesis
    using assms(1-4)
    by (simp add: extract_step_def CHECK_def vec_at_def mat_set_def extracted_def
          del: of_nat_add of_nat_mult)
qed

lemma extract_inner_loop:
  assumes "rws \<le> nrows M" "i < ncols M" "start + Suc i * rws \<le> length x"
    and "int (start + Suc i * rws) \<le> int_max"
  shows "for_loop 0 rws (extract_step x i) (extracted x start rws M i 0, int (start + i * rws))
         = Some (extracted x start rws M (Suc i) 0, int (start + Suc i * rws))"
proof -
  let ?F = "\<lambda>j. (extracted x start rws M i j, int (start + i * rws + j))"
  have "for_loop 0 rws (extract_step x i) (?F 0) = Some (?F rws)"
  proof (rule for_loop_closed)
    fix j assume j: "j < rws"
    then have "start + i * rws + j < length x" using assms(3) by simp
    moreover have "int (start + i * rws + j) + 1 \<le> int_max"
      using j assms(4) by simp
    ultimately show "extract_step x i j (?F j) = Some (?F (Suc j))"
      using j assms(1,2) by (intro extract_step_ok)
  qed simp
  then show ?thesis by (simp add: extracted_next add.commute add.left_commute)
qed

lemma extract_loop:
  assumes "rws \<le> nrows M" "n \<le> ncols M" "start + n * rws \<le> length x"
    and "int (start + n * rws) \<le> int_max"
  shows "for_loop 0 n (\<lambda>i. for_loop 0 rws (extract_step x i)) (M, int start)
         = Some (extracted x start rws M n 0, int (start + n * rws))"
proof -
  let ?F = "\<lambda>i. (extracted x start rws M i 0, int (start + i * rws))"
  have "for_loop 0 n (\<lambda>i. for_loop 0 rws (extract_step x i)) (?F 0) = Some (?F n)"
  proof (rule for_loop_closed)
    fix i assume i: "i < n"
    then have le: "Suc i * rws \<le> n * rws" by (intro mult_le_mono1) simp
    then have "start + Suc i * rws \<le> length x" using assms(3) by linarith
    moreover have "int (start + Suc i * rws) \<le> int_max" using le assms(4) by linarith
    ultimately show "for_loop 0 rws (extract_step x i) (?F i) = Some (?F (Suc i))"
      using i assms(1,2) by (intro extract_inner_loop) simp_all
  qed simp
  then show ?thesis by (simp add: extracted_0)
qed

lemma optimize_failure:
  assumes "populate_data p = Some d"
    and "status_val (solver d solver_settings) \<noteq> 1" "status_val (solver d solver_settings) \<noteq> 2"
  shows "optimize solver p = Some (False, p, [Settings, Data, Matrix_P, Matrix_A, Workspace])"
  using assms by (simp add: optimize_def Let_def c_malloc_def)

lemma optimize_success:
  assumes ok: "object_ok p" and d: "populate_data p = Some d"
    and st: "status_val (solver d solver_settings) = 1 \<or> status_val (solver d solver_settings) = 2"
    and len: "nat (num_of_variables p) \<le> length (solution_x (solver d solver_settings))"
  shows "optimize solver p =
     Some (True,
           p\<lparr>l_warm_up := extracted (solution_x (solver d solver_settings)) 0
                            (nat (obstacles_edges_sum p)) (l_warm_up p) (nat (horizon p + 1)) 0,
             n_warm_up := extracted (solution_x (solver d solver_settings))
                            (nat (lambda_horizon p)) (nat (4 * obstacles_num p)) (n_warm_up p)
                            (nat (horizon p + 1)) 0\<rparr>,
           [])"
proof -
  let ?x = "solution_x (solver d solver_settings)"
  let ?H = "nat (horizon p + 1)" and ?S = "nat (obstacles_edges_sum p)"
  note b = object_ok_bounds[OF ok]
  have facts: "0 \<le> horizon p" "0 \<le> obstacles_num p" "0 \<le> obstacles_edges_sum p"
    "lambda_horizon p = obstacles_edges_sum p * (horizon p + 1)"
    "miu_horizon p = 4 * obstacles_num p * (horizon p + 1)"
    "num_of_variables p = lambda_horizon p + miu_horizon p"
    "int (nrows (l_warm_up p)) = obstacles_edges_sum p"
    "int (ncols (l_warm_up p)) = horizon p + 1"
    "int (nrows (n_warm_up p)) = 4 * obstacles_num p"
    "int (ncols (n_warm_up p)) = horizon p + 1"
    using ok b(1) unfolding object_ok_def by blast+
  have lh: "nat (lambda_horizon p) = ?H * ?S"
    using facts by (simp add: nat_mult_distrib mult.commute)
  have mh: "nat (miu_horizon p) = ?H * nat (4 * obstacles_num p)"
    using facts by (simp add: nat_mult_distrib mult.commute)
  have nv: "nat (num_of_variables p) = ?H * ?S + ?H * nat (4 * obstacles_num p)"
    using facts lh mh b(3,4) by (simp add: nat_add_distrib)
  have nfit: "int (?H * ?S + ?H * nat (4 * obstacles_num p)) \<le> int_max"
    using b(5,7) nv by linarith
  have dims: "nrows (l_warm_up p) = ?S" "ncols (l_warm_up p) = ?H"
    "nrows (n_warm_up p) = nat (4 * obstacles_num p)" "ncols (n_warm_up p) = ?H"
    using facts(7-10) by linarith+
  have lfit: "int (0 + ?H * ?S) \<le> int_max"
    using nfit by (simp del: of_nat_mult)
  have llen: "0 + ?H * ?S \<le> length ?x" "?H * ?S + ?H * nat (4 * obstacles_num p) \<le> length ?x"
    using len nv by simp_all
  have l1: "for_loop 0 ?H (\<lambda>i. for_loop 0 ?S (extract_step ?x i)) (l_warm_up p, int 0)
            = Some (extracted ?x 0 ?S (l_warm_up p) ?H 0, int (0 + ?H * ?S))"
    by (rule extract_loop[OF _ _ llen(1) lfit]) (simp_all add: dims)
  have l2: "for_loop 0 ?H (\<lambda>i. for_loop 0 (nat (4 * obstacles_num p)) (extract_step ?x i))
              (n_warm_up p, int (?H * ?S))
            = Some (extracted ?x (?H * ?S) (nat (4 * obstacles_num p)) (n_warm_up p) ?H 0,
                    int (?H * ?S + ?H * nat (4 * obstacles_num p)))"
    by (rule extract_loop[OF _ _ llen(2) nfit]) (simp_all add: dims)
  have l1': "for_loop 0 ?H (\<lambda>i. for_loop 0 ?S (extract_step ?x i)) (l_warm_up p, 0)
            = Some (extracted ?x 0 ?S (l_warm_up p) ?H 0, int (?H * ?S))"
    using l1 by simp
  show ?thesis
    using st
    unfolding optimize_def d Let_def object_ok_to_int[OF ok]
    by (auto simp: l1' l2 lh c_malloc_def c_free_def simp del: of_nat_add of_nat_mult)
qed

lemma demo_valid: "valid_input 1 demo_ego demo_edges 2 demo_A demo_b demo_xWS"
  by (simp add: valid_input_def demo_ego_def demo_edges_def demo_A_def demo_b_def demo_xWS_def
        mat_of_rows_def int_max_def edges_before_def edges_num_def numeral_2_eq_2 All_less_Suc)

lemma demo_edges_before: "edges_before demo_edges 2 = 4"
  by (simp add: demo_edges_def mat_of_rows_def edges_before_def edges_num_def numeral_2_eq_2)

lemma demo_fit: "entries_fit 1 demo_edges 2"
  by (simp add: entries_fit_def objective_entries_def constraint_entries_def demo_edges_before
        int_max_def)
     (simp add: demo_edges_def mat_of_rows_def edges_num_def numeral_2_eq_2)

lemma demo_object:
  obtains p where "construct 1 (1 / 2) demo_ego demo_edges 2 demo_A demo_b demo_xWS = Some p"
    and "object_ok p" and "entries_ok p" and "horizon p = 1" and "obstacles_num p = 2"
    and "obstacles_edges_num p = demo_edges" and "obstacles_A p = demo_A"
    and "obstacles_b p = demo_b" and "xWS p = demo_xWS" and "obstacles_edges_sum p = 4"
    and "lambda_horizon p = 8" and "miu_horizon p = 16" and "num_of_variables p = 24"
    and "num_of_constraints p = 36" and "g p = [2, 1, 2, 1]" and "offset p = 1"
proof -
  obtain p where p: "construct 1 (1 / 2) demo_ego demo_edges 2 demo_A demo_b demo_xWS = Some p"
    "object_ok p" "horizon p = int 1" "obstacles_num p = int 2"
    "obstacles_edges_num p = demo_edges" "obstacles_A p = demo_A"
    "obstacles_b p = demo_b" "xWS p = demo_xWS"
    "g p = [(coeff demo_ego (0, 0) + coeff demo_ego (2, 0)) / 2,
            (coeff demo_ego (1, 0) + coeff demo_ego (3, 0)) / 2,
            (coeff demo_ego (0, 0) + coeff demo_ego (2, 0)) / 2,
            (coeff demo_ego (1, 0) + coeff demo_ego (3, 0)) / 2]"
    "offset p = (coeff demo_ego (0, 0) + coeff demo_ego (2, 0)) / 2 - coeff demo_ego (2, 0)"
    using construct_object_ok[OF demo_valid, of "1 / 2"] by blast
  have s: "obstacles_edges_sum p = 4"
    using p(2,4,5) by (simp add: object_ok_def demo_edges_before)
  have "lambda_horizon p = 8" "miu_horizon p = 16" "num_of_variables p = 24"
    "num_of_constraints p = 36"
    using p(2,3,4) s by (simp_all add: object_ok_def)
  moreover have "g p = [2, 1, 2, 1]" "offset p = 1"
    using p(9,10) by (simp_all add: demo_ego_def mat_of_rows_def)
  moreover have "entries_ok p"
    by (rule construct_entries_ok(2)[OF demo_valid demo_fit p(1)])
  ultimately show ?thesis using that p s by simp
qed

section \<open>The stored dimensions\<close>

text \<open>
  Claim C4. For every valid construction input the constructor returns, the stored
  number of variables is (sum of the edge counts) * (horizon + 1)
  + 4 * obstacles * (horizon + 1), and the stored number of constraints is
  3 * obstacles * (horizon + 1) plus the number of variables, although each product and
  sum is computed in 32-bit \<^verbatim>\<open>int\<close>.
\<close>

theorem dimensions_exact:
  assumes "valid_input h ego_arg E N A b x"
  shows "\<exists>p. construct h t ego_arg E N A b x = Some p
           \<and> num_of_variables p
               = edges_before E N * (int h + 1) + 4 * int N * (int h + 1)
           \<and> num_of_constraints p = 3 * int N * (int h + 1) + num_of_variables p"
proof -
  obtain p where p: "construct h t ego_arg E N A b x = Some p" "object_ok p"
      "horizon p = int h" "obstacles_num p = int N" "obstacles_edges_num p = E"
    using construct_object_ok[OF assms] by blast
  have "num_of_variables p = edges_before E N * (int h + 1) + 4 * int N * (int h + 1)"
    using p by (simp add: object_ok_def)
  moreover have "num_of_constraints p = 3 * int N * (int h + 1) + num_of_variables p"
    using p by (simp add: object_ok_def)
  ultimately show ?thesis using p(1) by blast
qed

theorem dimensions_exact_witness:
  "valid_input 1 demo_ego demo_edges 2 demo_A demo_b demo_xWS
   \<and> (\<exists>p. construct 1 (1 / 2) demo_ego demo_edges 2 demo_A demo_b demo_xWS = Some p
          \<and> num_of_variables p = 24 \<and> num_of_constraints p = 36)"
  using dimensions_exact[OF demo_valid, of "1 / 2"] demo_valid
  by (auto simp: demo_edges_before)

section \<open>The objective matrix\<close>

text \<open>
  Claim C5. For every valid construction input whose entry counts fit in \<^verbatim>\<open>int\<close>,
  \<^verbatim>\<open>assemble_P\<close> returns, and the matrix it returns is block-diagonal over the \<open>\<lambda>\<close> indices: the column of the \<open>\<lambda>\<close> variable of
  step \<open>i\<close>, obstacle \<open>j\<close> and edge \<open>c\<close> stores exactly the rows of the \<open>\<lambda>\<close> variables of
  the same step and obstacle, the entry in the row of edge \<open>r\<close> being the Gram entry
  \<open>(A\<^sub>j A\<^sub>j\<^sup>T)(r, c)\<close>, the same at every step; every \<open>\<lambda>\<close> column is of this form, and
  every \<open>\<mu>\<close> column is empty.
\<close>

theorem objective_block_diagonal:
  assumes "valid_input h ego_arg E N A b x" and "entries_fit h E N"
  shows "\<exists>p P. construct h t ego_arg E N A b x = Some p \<and> assemble_P p = Some P
          \<and> (\<forall>i j c. i < h + 1 \<and> j < N \<and> c < nat (edges_num E j) \<longrightarrow>
                csc_column P (lambda_index p i j c)
                  = map (\<lambda>r. (int (lambda_index p i j r), gram p j r c))
                      [0..<nat (edges_num E j)])
          \<and> (\<forall>v. v < nat (lambda_horizon p) \<longrightarrow>
                (\<exists>i j c. i < h + 1 \<and> j < N \<and> c < nat (edges_num E j)
                   \<and> v = lambda_index p i j c))
          \<and> (\<forall>v. nat (lambda_horizon p) \<le> v \<and> int v < num_of_variables p \<longrightarrow>
                csc_column P v = [])"
proof -
  obtain p where p: "construct h t ego_arg E N A b x = Some p" "object_ok p"
      "horizon p = int h" "obstacles_num p = int N" "obstacles_edges_num p = E"
    using construct_object_ok[OF assms(1)] by blast
  have fit: "int (length (concat (P_rows p))) \<le> int_max"
    using construct_entries_ok(2)[OF assms p(1)] by (simp add: entries_ok_def)
  let ?P = "(concat (P_vals p), concat (P_rows p), col_ptr (P_rows p))"
  have H: "nat (horizon p + 1) = h + 1" "nat (obstacles_num p) = N"
    using p(3,4) by simp_all
  have "assemble_P p = Some ?P" by (rule assemble_P_ok[OF p(2) fit])
  moreover have "csc_column ?P (lambda_index p i j c)
       = map (\<lambda>r. (int (lambda_index p i j r), gram p j r c)) [0..<nat (edges_num E j)]"
    if "i < h + 1" "j < N" "c < nat (edges_num E j)" for i j c
    using P_column_lambda[OF p(2), of i j c] that by (simp add: H p(5))
  moreover have "\<exists>i j c. i < h + 1 \<and> j < N \<and> c < nat (edges_num E j) \<and> v = lambda_index p i j c"
    if "v < nat (lambda_horizon p)" for v
    using lambda_index_onto[OF p(2) that] by (simp add: H p(5))
  moreover have "csc_column ?P v = []"
    if "nat (lambda_horizon p) \<le> v \<and> int v < num_of_variables p" for v
    using P_column_miu[OF p(2), of v] that by simp
  ultimately show ?thesis using p(1) by blast
qed

theorem objective_block_diagonal_witness:
  "valid_input 1 demo_ego demo_edges 2 demo_A demo_b demo_xWS \<and> entries_fit 1 demo_edges 2
   \<and> (\<exists>p P. construct 1 (1 / 2) demo_ego demo_edges 2 demo_A demo_b demo_xWS = Some p
          \<and> assemble_P p = Some P
          \<and> csc_column P 7 = [(7, 1)] \<and> csc_column P 5 = [(4, 0), (5, 1), (6, - 1)]
          \<and> csc_column P 8 = [])"
proof -
  obtain p P where a: "construct 1 (1 / 2) demo_ego demo_edges 2 demo_A demo_b demo_xWS = Some p"
      "assemble_P p = Some P"
      "\<forall>i j c. i < 1 + 1 \<and> j < 2 \<and> c < nat (edges_num demo_edges j) \<longrightarrow>
                csc_column P (lambda_index p i j c)
                  = map (\<lambda>r. (int (lambda_index p i j r), gram p j r c))
                      [0..<nat (edges_num demo_edges j)]"
      "\<forall>v. nat (lambda_horizon p) \<le> v \<and> int v < num_of_variables p \<longrightarrow> csc_column P v = []"
    using objective_block_diagonal[OF demo_valid demo_fit, of "1 / 2"] by blast
  obtain q where q: "construct 1 (1 / 2) demo_ego demo_edges 2 demo_A demo_b demo_xWS = Some q"
      "obstacles_edges_num q = demo_edges" "obstacles_A q = demo_A" "obstacles_edges_sum q = 4"
      "lambda_horizon q = 8" "num_of_variables q = 24"
    by (rule demo_object)
  have pq: "p = q" using a(1) q(1) by simp
  have e: "edges_num demo_edges 0 = 3" "edges_num demo_edges 1 = 1"
    "edges_num demo_edges (Suc 0) = 1"
    "edges_before demo_edges 0 = 0" "edges_before demo_edges 1 = 3"
    "edges_before demo_edges (Suc 0) = 3"
    by (simp_all add: edges_num_def edges_before_def demo_edges_def mat_of_rows_def)
  have "csc_column P (lambda_index p 1 1 0)
        = map (\<lambda>r. (int (lambda_index p 1 1 r), gram p 1 r 0)) [0..<nat (edges_num demo_edges 1)]"
    using a(3)[rule_format, of 1 1 0] by (simp add: e)
  then have c7: "csc_column P 7 = [(7, 1)]"
    by (simp add: pq q e lambda_index_def gram_def demo_A_def mat_of_rows_def)
  have "csc_column P (lambda_index p 1 0 1)
        = map (\<lambda>r. (int (lambda_index p 1 0 r), gram p 0 r 1)) [0..<nat (edges_num demo_edges 0)]"
    using a(3)[rule_format, of 1 0 1] by (simp add: e)
  then have c5: "csc_column P 5 = [(4, 0), (5, 1), (6, - 1)]"
    by (simp add: pq q e lambda_index_def gram_def demo_A_def mat_of_rows_def upt_rec)
  have c8: "csc_column P 8 = []"
    using a(4) by (simp add: pq q)
  show ?thesis using demo_valid demo_fit a(1,2) c7 c5 c8 by blast
qed

section \<open>The shape of the two sparse matrices\<close>

text \<open>
  Claim C8. For every valid construction input whose entry counts fit in \<^verbatim>\<open>int\<close>, both
  assemblers return, and for each of
  the two matrices the column-pointer array is non-decreasing, starts at 0 and has
  exactly \<open>n + 1\<close> entries, \<open>n\<close> being the number of variables, and the value array is as
  long as the row-index array.
\<close>

theorem column_pointers_well_formed:
  assumes "valid_input h ego_arg E N A b x" and "entries_fit h E N"
  shows "\<exists>p P_data P_indices P_indptr A_data A_indices A_indptr.
           construct h t ego_arg E N A b x = Some p
           \<and> assemble_P p = Some (P_data, P_indices, P_indptr)
           \<and> assemble_constraint p = Some (A_data, A_indices, A_indptr)
           \<and> sorted P_indptr \<and> P_indptr ! 0 = 0
           \<and> int (length P_indptr) = num_of_variables p + 1
           \<and> length P_data = length P_indices
           \<and> sorted A_indptr \<and> A_indptr ! 0 = 0
           \<and> int (length A_indptr) = num_of_variables p + 1
           \<and> length A_data = length A_indices
           \<and> num_of_variables p = edges_before E N * (int h + 1) + 4 * int N * (int h + 1)"
proof -
  obtain p where p: "construct h t ego_arg E N A b x = Some p" "object_ok p"
      "horizon p = int h" "obstacles_num p = int N" "obstacles_edges_num p = E"
    using construct_object_ok[OF assms(1)] by blast
  have fit: "int (length (concat (P_rows p))) \<le> int_max"
    "int (length (concat (A_cols p))) \<le> int_max"
    using construct_entries_ok(2)[OF assms p(1)] by (simp_all add: entries_ok_def)
  have hd0: "col_ptr cs ! 0 = 0" for cs :: "'a list list"
    using hd_col_ptr[of cs] by (simp add: hd_conv_nth col_ptr_def)
  have "num_of_variables p = edges_before E N * (int h + 1) + 4 * int N * (int h + 1)"
    using p by (simp add: object_ok_def)
  moreover have "int (length (col_ptr (P_rows p))) = num_of_variables p + 1"
    "int (length (col_ptr (A_cols p))) = num_of_variables p + 1"
    using length_P_rows[OF p(2)] length_A_cols[OF p(2)] by (simp_all add: length_col_ptr)
  moreover have "length (concat (P_vals p)) = length (concat (P_rows p))"
    by (rule length_concat_eq[OF map_length_P])
  ultimately show ?thesis
    using p(1) assemble_P_ok[OF p(2) fit(1)] assemble_constraint_ok[OF p(2) fit(2)]
      sorted_col_ptr[of "P_rows p"] sorted_col_ptr[of "A_cols p"]
      hd0[of "P_rows p"] hd0[of "A_cols p"] length_col_vals_rows[of "A_cols p"]
    by blast
qed

theorem column_pointers_well_formed_witness:
  "valid_input 1 demo_ego demo_edges 2 demo_A demo_b demo_xWS \<and> entries_fit 1 demo_edges 2
   \<and> (\<exists>p P_data P_indices P_indptr A_data A_indices A_indptr.
           construct 1 (1 / 2) demo_ego demo_edges 2 demo_A demo_b demo_xWS = Some p
           \<and> assemble_P p = Some (P_data, P_indices, P_indptr)
           \<and> assemble_constraint p = Some (A_data, A_indices, A_indptr)
           \<and> sorted P_indptr \<and> P_indptr ! 0 = 0 \<and> length P_indptr = 25
           \<and> length P_data = length P_indices
           \<and> sorted A_indptr \<and> A_indptr ! 0 = 0 \<and> length A_indptr = 25
           \<and> length A_data = length A_indices)"
proof -
  obtain p P_data P_indices P_indptr A_data A_indices A_indptr where a:
      "construct 1 (1 / 2) demo_ego demo_edges 2 demo_A demo_b demo_xWS = Some p"
      "assemble_P p = Some (P_data, P_indices, P_indptr)"
      "assemble_constraint p = Some (A_data, A_indices, A_indptr)"
      "sorted P_indptr" "P_indptr ! 0 = 0" "int (length P_indptr) = num_of_variables p + 1"
      "length P_data = length P_indices"
      "sorted A_indptr" "A_indptr ! 0 = 0" "int (length A_indptr) = num_of_variables p + 1"
      "length A_data = length A_indices"
      "num_of_variables p = edges_before demo_edges 2 * (int 1 + 1) + 4 * int 2 * (int 1 + 1)"
    using column_pointers_well_formed[OF demo_valid demo_fit, of "1 / 2"] by blast
  have "length P_indptr = 25" "length A_indptr = 25"
    using a(6,10,12) by (simp_all add: demo_edges_before)
  then show ?thesis using demo_valid demo_fit a(1-5,7-9,11) by blast
qed

lemma extracted_coeff:
  assumes "i < n" "j < rws"
  shows "coeff (extracted x start rws M n 0) (j, i) = x ! (start + i * rws + j)"
  using assms by (simp add: extracted_def)

lemma optimize_flag:
  assumes "optimize solver q = Some (ok, q', live)"
  shows "\<exists>d. populate_data q = Some d
           \<and> (ok \<longleftrightarrow> status_val (solver d solver_settings) = 1
                    \<or> status_val (solver d solver_settings) = 2)
           \<and> (\<not> ok \<longrightarrow> q' = q)"
  using assms
  by (auto simp: optimize_def Let_def split: Option.bind_splits if_splits prod.splits)

lemma constraint_column_lambda:
  assumes ok: "object_ok p" and i: "i < nat (horizon p + 1)" and j: "j < nat (obstacles_num p)"
    and k: "k < nat (edges_num (obstacles_edges_num p) j)"
  shows "csc_column (col_vals (A_cols p), col_rows (A_cols p), col_ptr (A_cols p))
           (lambda_index p i j k) = lambda_col p i j k"
proof -
  have "num_of_variables p = lambda_horizon p + miu_horizon p" "0 \<le> miu_horizon p"
    using ok by (simp_all add: object_ok_def)
  then have "lambda_index p i j k < length (A_cols p)"
    using lambda_index_less(2)[OF assms] length_A_cols[OF ok] by linarith
  then show ?thesis by (simp add: csc_column_cols A_cols_lambda[OF assms])
qed

lemma constraint_column_miu:
  assumes ok: "object_ok p" and i: "i < nat (horizon p + 1)" and j: "j < nat (obstacles_num p)"
    and k: "k < 4"
  shows "csc_column (col_vals (A_cols p), col_rows (A_cols p), col_ptr (A_cols p))
           (miu_index p i j k) = miu_col p i j k"
  using miu_index_less[OF assms] by (simp add: csc_column_cols A_cols_miu[OF assms])

lemma row_bounds_valid:
  assumes "valid_input h ego_arg E N A b x" and "entries_fit h E N"
  shows "int i < 2 * int N * (int h + 1)
           \<Longrightarrow> row_bounds (construct h t ego_arg E N A b x) i = Some (0, 0)"
    and "2 * int N * (int h + 1) \<le> int i
           \<Longrightarrow> int i < 3 * int N * (int h + 1)
                     + (edges_before E N * (int h + 1) + 4 * int N * (int h + 1))
           \<Longrightarrow> row_bounds (construct h t ego_arg E N A b x) i = Some (0, 2 * 10 ^ 19)"
proof -
  obtain p where p: "construct h t ego_arg E N A b x = Some p" "object_ok p"
      "horizon p = int h" "obstacles_num p = int N" "obstacles_edges_num p = E"
    using construct_object_ok[OF assms(1)] by blast
  note fit = construct_entries_ok(2)[OF assms p(1)]
  have m: "num_of_constraints p = 3 * int N * (int h + 1)
             + (edges_before E N * (int h + 1) + 4 * int N * (int h + 1))"
    using p by (simp add: object_ok_def)
  have S0: "0 \<le> edges_before E N"
    using p(2,4,5) by (simp add: object_ok_def flip: of_nat_0_le_iff)
  then have SH: "0 \<le> edges_before E N * (int h + 1)" by simp
  have NH: "0 \<le> int N * (int h + 1)" by simp
  show "row_bounds (construct h t ego_arg E N A b x) i = Some (0, 0)"
    if "int i < 2 * int N * (int h + 1)"
  proof -
    have "i < nat (num_of_constraints p)" using that m SH NH by linarith
    then show ?thesis
      using that
      by (simp add: row_bounds_def p(1) populate_data_ok[OF p(2) fit] vec_at_def p(3,4))
  qed
  show "row_bounds (construct h t ego_arg E N A b x) i = Some (0, 2 * 10 ^ 19)"
    if "2 * int N * (int h + 1) \<le> int i"
      "int i < 3 * int N * (int h + 1) + (edges_before E N * (int h + 1) + 4 * int N * (int h + 1))"
  proof -
    have "i < nat (num_of_constraints p)" using that m by linarith
    then show ?thesis
      using that
      by (simp add: row_bounds_def p(1) populate_data_ok[OF p(2) fit] vec_at_def p(3,4))
  qed
qed

lemma group1_entry_valid:
  assumes v: "valid_input h ego_arg E N A b x" and f: "entries_fit h E N"
    and i: "i \<le> h" and j: "j < N" and k: "int k < edges_num E j"
  shows "group1_entry (construct h t ego_arg E N A b x) i j k 0
           = Some (cos (coeff x (2, i)) * coeff A (nat (edges_before E j) + k, 0)
                 + sin (coeff x (2, i)) * coeff A (nat (edges_before E j) + k, 1))"
    and "group1_entry (construct h t ego_arg E N A b x) i j k 1
           = Some (sin (coeff x (2, i)) * coeff A (nat (edges_before E j) + k, 0)
                 + cos (coeff x (2, i)) * coeff A (nat (edges_before E j) + k, 1))"
proof -
  obtain p where p: "construct h t ego_arg E N A b x = Some p" "object_ok p"
      "horizon p = int h" "obstacles_num p = int N" "obstacles_edges_num p = E"
      "obstacles_A p = A" "xWS p = x"
    using construct_object_ok[OF v] by blast
  have fitA: "int (length (concat (A_cols p))) \<le> int_max"
    using construct_entries_ok(2)[OF v f p(1)] by (simp add: entries_ok_def)
  have i': "i < nat (horizon p + 1)" and j': "j < nat (obstacles_num p)"
    and k': "k < nat (edges_num (obstacles_edges_num p) j)"
    using i j k p by simp_all
  have col: "csc_column (col_vals (A_cols p), col_rows (A_cols p), col_ptr (A_cols p))
               (lambda_index p i j k) = lambda_col p i j k"
    by (rule constraint_column_lambda[OF p(2) i' j' k'])
  show "group1_entry (construct h t ego_arg E N A b x) i j k 0
           = Some (cos (coeff x (2, i)) * coeff A (nat (edges_before E j) + k, 0)
                 + sin (coeff x (2, i)) * coeff A (nat (edges_before E j) + k, 1))"
    by (simp add: group1_entry_def p assemble_constraint_ok[OF p(2) fitA] col lambda_col_def
          Let_def)
  show "group1_entry (construct h t ego_arg E N A b x) i j k 1
           = Some (sin (coeff x (2, i)) * coeff A (nat (edges_before E j) + k, 0)
                 + cos (coeff x (2, i)) * coeff A (nat (edges_before E j) + k, 1))"
    by (simp add: group1_entry_def p assemble_constraint_ok[OF p(2) fitA] col lambda_col_def
          Let_def)
qed

lemma obstacle_block_valid:
  assumes v: "valid_input h ego_arg E N A b x" and j: "j < N"
  shows "block A (edges_before E j) 0 (edges_num E j) 2
           = Some \<lparr>nrows = nat (edges_num E j), ncols = 2,
                   coeff = (\<lambda>(r, c). coeff A (nat (edges_before E j) + r, c))\<rparr>"
proof -
  have pos: "\<forall>j<N. 0 < edges_num E j" using v by (simp add: valid_input_def)
  have "0 \<le> edges_before E j" using edges_before_nonneg[OF pos, of j] j by simp
  moreover have "0 < edges_num E j" using pos j by simp
  moreover have "edges_before E (Suc j) \<le> edges_before E N"
    by (rule edges_before_mono[OF pos]) (use j in simp_all)
  then have "edges_before E j + edges_num E j \<le> int (nrows A)"
    using v by (simp add: valid_input_def edges_before_Suc)
  moreover have "ncols A = 2" using v by (simp add: valid_input_def)
  ultimately show ?thesis by (simp add: block_def)
qed

lemma layout_group1_entry_valid:
  assumes v: "valid_input h ego_arg E N A b x"
    and i: "i \<le> h" and j: "j < N" and k: "int k < edges_num E j"
  shows "layout_group1_entry (construct h t ego_arg E N A b x) i j k 0
           = Some (cos (coeff x (2, i)) * coeff A (nat (edges_before E j) + k, 0)
                 + sin (coeff x (2, i)) * coeff A (nat (edges_before E j) + k, 1))"
proof -
  obtain p where p: "construct h t ego_arg E N A b x = Some p"
      "obstacles_edges_num p = E" "obstacles_A p = A" "xWS p = x"
    using construct_object_ok[OF v] by blast
  have h: "Suc (Suc 0) < nrows x" "i < ncols x"
    using v i by (simp_all add: valid_input_def)
  have k': "k < nat (edges_num E j)" using k by simp
  show ?thesis
    using k'
    by (simp add: layout_group1_entry_def layout_group1_def p h obstacle_block_valid[OF v j]
          mat_mul_def mat_transpose_def spec_rotation_def mat_of_rows_def mat_at_def
          numeral_2_eq_2)
qed

lemma spec_group1_entry_valid:
  assumes v: "valid_input h ego_arg E N A b x"
    and i: "i \<le> h" and j: "j < N" and k: "int k < edges_num E j"
  shows "spec_group1_entry (construct h t ego_arg E N A b x) i j k 0
           = Some (cos (coeff x (2, i)) * coeff A (nat (edges_before E j) + k, 0)
                 - sin (coeff x (2, i)) * coeff A (nat (edges_before E j) + k, 1))"
proof -
  obtain p where p: "construct h t ego_arg E N A b x = Some p"
      "obstacles_edges_num p = E" "obstacles_A p = A" "xWS p = x"
    using construct_object_ok[OF v] by blast
  have h: "Suc (Suc 0) < nrows x" "i < ncols x"
    using v i by (simp_all add: valid_input_def)
  have k': "k < nat (edges_num E j)" using k by simp
  show ?thesis
    using k'
    by (simp add: spec_group1_entry_def spec_group1_def p h obstacle_block_valid[OF v j]
          mat_mul_def mat_transpose_def spec_rotation_def mat_of_rows_def mat_at_def
          numeral_2_eq_2)
qed

section \<open>The bound vectors\<close>

text \<open>
  Claim C3, as stated: every row \<open>i < 3 * obstacles * (horizon + 1)\<close>, that is every row
  of groups 1 and 2, is an equality row, \<open>l[i] = u[i] = 0\<close>. On the small instance row 8,
  the first row of group 2, has the bounds \<open>(0, 2 * 10\<^sup>1\<^sup>9)\<close>.
\<close>

theorem group2_rows_not_equalities:
  "int 8 < 3 * int 2 * (int 1 + 1)
   \<and> row_bounds (construct 1 (1 / 2) demo_ego demo_edges 2 demo_A demo_b demo_xWS) 8
       = Some (0, 20000000000000000000)
   \<and> row_bounds (construct 1 (1 / 2) demo_ego demo_edges 2 demo_A demo_b demo_xWS) 8
       \<noteq> Some (0, 0)"
  using row_bounds_valid(2)[OF demo_valid demo_fit, of 8 "1 / 2"]
  by (simp add: demo_edges_before)

text \<open>
  Claim C3, amended. For every valid construction input whose entry counts fit in
  \<^verbatim>\<open>int\<close>, the rows of group 1, the rows
  \<open>i < 2 * obstacles * (horizon + 1)\<close>, are equality rows, \<open>l[i] = u[i] = 0\<close>; the rows of
  group 2, \<open>2 * obstacles * (horizon + 1) \<le> i < 3 * obstacles * (horizon + 1)\<close>, have
  \<open>l[i] = 0\<close> and \<open>u[i] = 2 * 10\<^sup>1\<^sup>9\<close>.
\<close>

theorem bounds_by_group:
  assumes "valid_input h ego_arg E N A b x" and "entries_fit h E N"
  shows "(\<forall>i. int i < 2 * int N * (int h + 1)
            \<longrightarrow> row_bounds (construct h t ego_arg E N A b x) i = Some (0, 0))
       \<and> (\<forall>i. 2 * int N * (int h + 1) \<le> int i \<and> int i < 3 * int N * (int h + 1)
            \<longrightarrow> row_bounds (construct h t ego_arg E N A b x) i = Some (0, 2 * 10 ^ 19))"
proof -
  obtain p where p: "construct h t ego_arg E N A b x = Some p" "object_ok p"
      "obstacles_num p = int N" "obstacles_edges_num p = E"
    using construct_object_ok[OF assms(1)] by blast
  have "0 \<le> edges_before E N"
    using p by (simp add: object_ok_def flip: of_nat_0_le_iff)
  then have "0 \<le> edges_before E N * (int h + 1) + 4 * int N * (int h + 1)" by simp
  then show ?thesis
    using row_bounds_valid[OF assms] by (auto simp del: of_nat_mult of_nat_add)
qed

theorem bounds_by_group_witness:
  "valid_input 1 demo_ego demo_edges 2 demo_A demo_b demo_xWS \<and> entries_fit 1 demo_edges 2
   \<and> int 7 < 2 * int 2 * (int 1 + 1)
   \<and> row_bounds (construct 1 (1 / 2) demo_ego demo_edges 2 demo_A demo_b demo_xWS) 7
       = Some (0, 0)
   \<and> 2 * int 2 * (int 1 + 1) \<le> int 11 \<and> int 11 < 3 * int 2 * (int 1 + 1)
   \<and> row_bounds (construct 1 (1 / 2) demo_ego demo_edges 2 demo_A demo_b demo_xWS) 11
       = Some (0, 20000000000000000000)"
proof -
  have a: "int 7 < 2 * int 2 * (int 1 + 1)"
    and b: "2 * int 2 * (int 1 + 1) \<le> int 11 \<and> int 11 < 3 * int 2 * (int 1 + 1)"
    by simp_all
  note t = bounds_by_group[OF demo_valid demo_fit, of "1 / 2"]
  have "row_bounds (construct 1 (1 / 2) demo_ego demo_edges 2 demo_A demo_b demo_xWS) 7
          = Some (0, 0)"
    using t[THEN conjunct1, rule_format, OF a] .
  moreover have "row_bounds (construct 1 (1 / 2) demo_ego demo_edges 2 demo_A demo_b demo_xWS) 11
          = Some (0, 2 * 10 ^ 19)"
    using t[THEN conjunct2, rule_format, OF b] .
  ultimately show ?thesis using demo_valid demo_fit by simp
qed

section \<open>The outcome of the solve\<close>

text \<open>
  Claim C6. For every valid construction input whose entry counts fit in \<^verbatim>\<open>int\<close>, the
  problem data are assembled, and for
  every solver: when the status it reports is neither 1 (solved) nor 2 (solved
  inaccurately), \<^verbatim>\<open>optimize\<close> returns false and the object, with its two result matrices,
  is what it was before the call; when the status is 1 or 2 and the solution has the
  \<open>n\<close> entries the solver owes, \<^verbatim>\<open>optimize\<close> returns true. For any object at all, one that
  holds earlier results included, a call that returns does so with the flag true exactly
  when the status is 1 or 2, and leaves the object unchanged when the flag is false.
\<close>

theorem solve_status:
  assumes "valid_input h ego_arg E N A b x" and "entries_fit h E N"
  shows "\<exists>p d. construct h t ego_arg E N A b x = Some p \<and> populate_data p = Some d
          \<and> data_n d = num_of_variables p
          \<and> (\<forall>solver.
                (status_val (solver d solver_settings) \<noteq> 1
                   \<and> status_val (solver d solver_settings) \<noteq> 2
                 \<longrightarrow> (\<exists>p' live. optimize solver p = Some (False, p', live)
                        \<and> get_optimization_results p' = get_optimization_results p))
              \<and> ((status_val (solver d solver_settings) = 1
                    \<or> status_val (solver d solver_settings) = 2)
                   \<and> nat (num_of_variables p) \<le> length (solution_x (solver d solver_settings))
                 \<longrightarrow> (\<exists>p' live. optimize solver p = Some (True, p', live))))
          \<and> (\<forall>solver q ok q' live. optimize solver q = Some (ok, q', live)
                \<longrightarrow> (\<exists>dq. populate_data q = Some dq
                       \<and> (ok \<longleftrightarrow> status_val (solver dq solver_settings) = 1
                                \<or> status_val (solver dq solver_settings) = 2)
                       \<and> (\<not> ok \<longrightarrow> q' = q)))"
proof -
  obtain p where p: "construct h t ego_arg E N A b x = Some p" "object_ok p"
    using construct_object_ok[OF assms(1)] by blast
  note fit = construct_entries_ok(2)[OF assms p(1)]
  obtain d where d: "populate_data p = Some d" "data_n d = num_of_variables p"
    using populate_data_ok[OF p(2) fit] by simp
  have "\<exists>p' live. optimize solver p = Some (False, p', live)
          \<and> get_optimization_results p' = get_optimization_results p"
    if "status_val (solver d solver_settings) \<noteq> 1 \<and> status_val (solver d solver_settings) \<noteq> 2"
    for solver
    using optimize_failure[OF d(1), of solver] that by blast
  moreover have "\<exists>p' live. optimize solver p = Some (True, p', live)"
    if "(status_val (solver d solver_settings) = 1 \<or> status_val (solver d solver_settings) = 2)
        \<and> nat (num_of_variables p) \<le> length (solution_x (solver d solver_settings))"
    for solver
    using optimize_success[OF p(2) d(1), of solver] that by blast
  ultimately show ?thesis
    using p(1) d optimize_flag by blast
qed

theorem solve_status_witness:
  "valid_input 1 demo_ego demo_edges 2 demo_A demo_b demo_xWS \<and> entries_fit 1 demo_edges 2
   \<and> (\<exists>p p' p'' live live' d.
        construct 1 (1 / 2) demo_ego demo_edges 2 demo_A demo_b demo_xWS = Some p
        \<and> optimize infeasible_solver p = Some (False, p', live)
        \<and> get_optimization_results p' = get_optimization_results p
        \<and> p' = p
        \<and> optimize counting_solver p = Some (True, p'', live')
        \<and> populate_data p = Some d \<and> status_val (counting_solver d solver_settings) = 1)"
proof -
  obtain p d where a: "construct 1 (1 / 2) demo_ego demo_edges 2 demo_A demo_b demo_xWS = Some p"
      "populate_data p = Some d" "data_n d = num_of_variables p"
      "\<forall>solver.
         (status_val (solver d solver_settings) \<noteq> 1 \<and> status_val (solver d solver_settings) \<noteq> 2
            \<longrightarrow> (\<exists>p' live. optimize solver p = Some (False, p', live)
                   \<and> get_optimization_results p' = get_optimization_results p))
       \<and> ((status_val (solver d solver_settings) = 1 \<or> status_val (solver d solver_settings) = 2)
              \<and> nat (num_of_variables p) \<le> length (solution_x (solver d solver_settings))
            \<longrightarrow> (\<exists>p' live. optimize solver p = Some (True, p', live)))"
      "\<forall>solver q ok q' live. optimize solver q = Some (ok, q', live)
          \<longrightarrow> (\<exists>dq. populate_data q = Some dq
                 \<and> (ok \<longleftrightarrow> status_val (solver dq solver_settings) = 1
                          \<or> status_val (solver dq solver_settings) = 2)
                 \<and> (\<not> ok \<longrightarrow> q' = q))"
    using solve_status[OF demo_valid demo_fit, of "1 / 2"] by blast
  have "status_val (infeasible_solver d solver_settings) \<noteq> 1
          \<and> status_val (infeasible_solver d solver_settings) \<noteq> 2"
    by (simp add: infeasible_solver_def)
  then obtain p' live where f: "optimize infeasible_solver p = Some (False, p', live)"
      "get_optimization_results p' = get_optimization_results p"
    using a(4) by blast
  have "(status_val (counting_solver d solver_settings) = 1
           \<or> status_val (counting_solver d solver_settings) = 2)
        \<and> nat (num_of_variables p) \<le> length (solution_x (counting_solver d solver_settings))"
    by (simp add: counting_solver_def a(3))
  then obtain p'' live' where s: "optimize counting_solver p = Some (True, p'', live')"
    using a(4) by blast
  have u: "p' = p" using a(5) f(1) by blast
  have c: "status_val (counting_solver d solver_settings) = 1"
    by (simp add: counting_solver_def)
  show ?thesis using demo_valid demo_fit a(1,2) f s u c by blast
qed

text \<open>
  Claim C7. For every valid construction input whose entry counts fit in \<^verbatim>\<open>int\<close>, and
  every solver that reports status 1
  or 2 with a solution \<open>x\<close> of \<open>n\<close> entries, \<^verbatim>\<open>optimize\<close> returns true, and in the object
  it leaves the \<open>\<lambda>\<close> matrix has (total edges) rows and (horizon + 1) columns with entry
  \<open>(j, i)\<close> equal to \<open>x[i * (total edges) + j]\<close>, and the \<open>\<mu>\<close> matrix has (4 * obstacles)
  rows and (horizon + 1) columns with entry \<open>(j, i)\<close> equal to
  \<open>x[(total edges) * (horizon + 1) + i * 4 * obstacles + j]\<close>.
\<close>

theorem solution_split:
  assumes "valid_input h ego_arg E N A b x" and "entries_fit h E N"
  shows "\<exists>p d. construct h t ego_arg E N A b x = Some p \<and> populate_data p = Some d
          \<and> int (nat (data_n d)) = (edges_before E N + 4 * int N) * (int h + 1)
          \<and> (\<forall>solver.
                (status_val (solver d solver_settings) = 1
                   \<or> status_val (solver d solver_settings) = 2)
                \<and> length (solution_x (solver d solver_settings)) = nat (data_n d)
                \<longrightarrow> (\<exists>p' live. optimize solver p = Some (True, p', live)
                      \<and> nrows (l_warm_up p') = nat (edges_before E N)
                      \<and> ncols (l_warm_up p') = h + 1
                      \<and> nrows (n_warm_up p') = 4 * N
                      \<and> ncols (n_warm_up p') = h + 1
                      \<and> (\<forall>i j. i < h + 1 \<and> j < nat (edges_before E N) \<longrightarrow>
                            coeff (l_warm_up p') (j, i)
                              = solution_x (solver d solver_settings)
                                  ! (i * nat (edges_before E N) + j))
                      \<and> (\<forall>i j. i < h + 1 \<and> j < 4 * N \<longrightarrow>
                            coeff (n_warm_up p') (j, i)
                              = solution_x (solver d solver_settings)
                                  ! (nat (edges_before E N) * (h + 1) + i * (4 * N) + j))))"
proof -
  obtain p where p: "construct h t ego_arg E N A b x = Some p" "object_ok p"
      "horizon p = int h" "obstacles_num p = int N" "obstacles_edges_num p = E"
      "l_warm_up p = \<lparr>nrows = nat (edges_before E N), ncols = h + 1, coeff = (\<lambda>_. 0)\<rparr>"
      "n_warm_up p = \<lparr>nrows = 4 * N, ncols = h + 1, coeff = (\<lambda>_. 0)\<rparr>"
    using construct_object_ok[OF assms(1)] by blast
  note fit = construct_entries_ok(2)[OF assms p(1)]
  obtain d where d: "populate_data p = Some d" "data_n d = num_of_variables p"
    using populate_data_ok[OF p(2) fit] by simp
  have S: "obstacles_edges_sum p = edges_before E N" "0 \<le> edges_before E N"
    using p(2,4,5) by (simp_all add: object_ok_def flip: of_nat_0_le_iff)
  have nv: "num_of_variables p = (edges_before E N + 4 * int N) * (int h + 1)"
    using p(2,3,4) S by (simp add: object_ok_def algebra_simps)
  have nv0: "0 \<le> num_of_variables p" using nv S by simp
  have lh: "nat (lambda_horizon p) = nat (edges_before E N) * (h + 1)"
    using p(2,3) S by (simp add: object_ok_def nat_mult_distrib nat_add_distrib)
  have H: "nat (horizon p + 1) = h + 1" "nat (4 * obstacles_num p) = 4 * N"
    using p(3,4) by simp_all
  have "\<exists>p' live. optimize solver p = Some (True, p', live)
          \<and> nrows (l_warm_up p') = nat (edges_before E N) \<and> ncols (l_warm_up p') = h + 1
          \<and> nrows (n_warm_up p') = 4 * N \<and> ncols (n_warm_up p') = h + 1
          \<and> (\<forall>i j. i < h + 1 \<and> j < nat (edges_before E N) \<longrightarrow>
                coeff (l_warm_up p') (j, i)
                  = solution_x (solver d solver_settings) ! (i * nat (edges_before E N) + j))
          \<and> (\<forall>i j. i < h + 1 \<and> j < 4 * N \<longrightarrow>
                coeff (n_warm_up p') (j, i)
                  = solution_x (solver d solver_settings)
                      ! (nat (edges_before E N) * (h + 1) + i * (4 * N) + j))"
    if st: "(status_val (solver d solver_settings) = 1 \<or> status_val (solver d solver_settings) = 2)
        \<and> length (solution_x (solver d solver_settings)) = nat (data_n d)"
    for solver
  proof -
    have len: "nat (num_of_variables p) \<le> length (solution_x (solver d solver_settings))"
      using st d(2) by simp
    note opt = optimize_success[of p d solver, OF p(2) d(1) st[THEN conjunct1] len]
    show ?thesis
      unfolding opt S H lh
      by (simp add: extracted_coeff p(6,7))
  qed
  then show ?thesis
    using p(1) d nv nv0 by (auto simp del: of_nat_add of_nat_mult)
qed

theorem solution_split_witness:
  "valid_input 1 demo_ego demo_edges 2 demo_A demo_b demo_xWS \<and> entries_fit 1 demo_edges 2
   \<and> (\<exists>p p' live.
        construct 1 (1 / 2) demo_ego demo_edges 2 demo_A demo_b demo_xWS = Some p
        \<and> optimize counting_solver p = Some (True, p', live)
        \<and> nrows (l_warm_up p') = 4 \<and> ncols (l_warm_up p') = 2
        \<and> nrows (n_warm_up p') = 8 \<and> ncols (n_warm_up p') = 2
        \<and> coeff (l_warm_up p') (2, 1) = 6 \<and> coeff (n_warm_up p') (3, 1) = 19)"
proof -
  obtain p d where a: "construct 1 (1 / 2) demo_ego demo_edges 2 demo_A demo_b demo_xWS = Some p"
      "populate_data p = Some d"
      "int (nat (data_n d)) = (edges_before demo_edges 2 + 4 * int 2) * (int 1 + 1)"
      "\<forall>solver.
         (status_val (solver d solver_settings) = 1 \<or> status_val (solver d solver_settings) = 2)
         \<and> length (solution_x (solver d solver_settings)) = nat (data_n d)
         \<longrightarrow> (\<exists>p' live. optimize solver p = Some (True, p', live)
               \<and> nrows (l_warm_up p') = nat (edges_before demo_edges 2)
               \<and> ncols (l_warm_up p') = 1 + 1
               \<and> nrows (n_warm_up p') = 4 * 2
               \<and> ncols (n_warm_up p') = 1 + 1
               \<and> (\<forall>i j. i < 1 + 1 \<and> j < nat (edges_before demo_edges 2) \<longrightarrow>
                     coeff (l_warm_up p') (j, i)
                       = solution_x (solver d solver_settings)
                           ! (i * nat (edges_before demo_edges 2) + j))
               \<and> (\<forall>i j. i < 1 + 1 \<and> j < 4 * 2 \<longrightarrow>
                     coeff (n_warm_up p') (j, i)
                       = solution_x (solver d solver_settings)
                           ! (nat (edges_before demo_edges 2) * (1 + 1) + i * (4 * 2) + j)))"
    using solution_split[OF demo_valid demo_fit, of "1 / 2"] by blast
  have "int (nat (data_n d)) = 24"
    using a(3) by (simp add: demo_edges_before del: int_nat_eq)
  then have n: "nat (data_n d) = 24" by linarith
  have "(status_val (counting_solver d solver_settings) = 1
           \<or> status_val (counting_solver d solver_settings) = 2)
        \<and> length (solution_x (counting_solver d solver_settings)) = nat (data_n d)"
    by (simp add: counting_solver_def)
  then obtain p' live where s: "optimize counting_solver p = Some (True, p', live)"
      "nrows (l_warm_up p') = nat (edges_before demo_edges 2)" "ncols (l_warm_up p') = 1 + 1"
      "nrows (n_warm_up p') = 4 * 2" "ncols (n_warm_up p') = 1 + 1"
      "\<forall>i j. i < 1 + 1 \<and> j < nat (edges_before demo_edges 2) \<longrightarrow>
                     coeff (l_warm_up p') (j, i)
                       = solution_x (counting_solver d solver_settings)
                           ! (i * nat (edges_before demo_edges 2) + j)"
      "\<forall>i j. i < 1 + 1 \<and> j < 4 * 2 \<longrightarrow>
                     coeff (n_warm_up p') (j, i)
                       = solution_x (counting_solver d solver_settings)
                           ! (nat (edges_before demo_edges 2) * (1 + 1) + i * (4 * 2) + j)"
    using a(4) by blast
  have "coeff (l_warm_up p') (2, 1) = 6"
    using s(6)[rule_format, of 1 2] by (simp add: demo_edges_before counting_solver_def n)
  moreover have "coeff (n_warm_up p') (3, 1) = 19"
    using s(7)[rule_format, of 1 3] by (simp add: demo_edges_before counting_solver_def n)
  ultimately show ?thesis
    using demo_valid demo_fit a(1) s(1-5) by (simp add: demo_edges_before)
qed

section \<open>The results before a successful solve\<close>

text \<open>
  Claim C10. After construction from a valid input, \<^verbatim>\<open>get_optimization_results\<close>
  returns two matrices whose every coefficient is zero, of shapes
  (total edges) x (horizon + 1) and (4 * obstacles) x (horizon + 1); a solve that
  returns failure leaves the object as it was, so the same holds after it.
\<close>

theorem results_before_solve_zero:
  assumes "valid_input h ego_arg E N A b x"
  shows "\<exists>p. construct h t ego_arg E N A b x = Some p
           \<and> get_optimization_results p
               = (\<lparr>nrows = nat (edges_before E N), ncols = h + 1, coeff = (\<lambda>_. 0)\<rparr>,
                  \<lparr>nrows = 4 * N, ncols = h + 1, coeff = (\<lambda>_. 0)\<rparr>)
           \<and> (\<forall>solver p' live. optimize solver p = Some (False, p', live)
                 \<longrightarrow> get_optimization_results p' = get_optimization_results p)"
proof -
  have "optimize solver p = Some (False, p', live) \<Longrightarrow> p' = p" for solver p p' live
    by (auto simp: optimize_def Let_def split: Option.bind_splits if_splits prod.splits)
  moreover obtain p where "construct h t ego_arg E N A b x = Some p"
      "l_warm_up p = \<lparr>nrows = nat (edges_before E N), ncols = h + 1, coeff = (\<lambda>_. 0)\<rparr>"
      "n_warm_up p = \<lparr>nrows = 4 * N, ncols = h + 1, coeff = (\<lambda>_. 0)\<rparr>"
    using construct_object_ok[OF assms] by blast
  ultimately show ?thesis
    by (auto simp: get_optimization_results_def)
qed

theorem results_before_solve_zero_witness:
  "valid_input 1 demo_ego demo_edges 2 demo_A demo_b demo_xWS
   \<and> (\<exists>p p' live.
          construct 1 (1 / 2) demo_ego demo_edges 2 demo_A demo_b demo_xWS = Some p
          \<and> get_optimization_results p
              = (\<lparr>nrows = 4, ncols = 2, coeff = (\<lambda>_. 0)\<rparr>,
                 \<lparr>nrows = 8, ncols = 2, coeff = (\<lambda>_. 0)\<rparr>)
          \<and> optimize infeasible_solver p = Some (False, p', live)
          \<and> get_optimization_results p'
              = (\<lparr>nrows = 4, ncols = 2, coeff = (\<lambda>_. 0)\<rparr>,
                 \<lparr>nrows = 8, ncols = 2, coeff = (\<lambda>_. 0)\<rparr>))"
proof -
  obtain p where a: "construct 1 (1 / 2) demo_ego demo_edges 2 demo_A demo_b demo_xWS = Some p"
      "get_optimization_results p
         = (\<lparr>nrows = nat (edges_before demo_edges 2), ncols = 1 + 1, coeff = (\<lambda>_. 0)\<rparr>,
            \<lparr>nrows = 4 * 2, ncols = 1 + 1, coeff = (\<lambda>_. 0)\<rparr>)"
      "\<forall>solver p' live. optimize solver p = Some (False, p', live)
          \<longrightarrow> get_optimization_results p' = get_optimization_results p"
    using results_before_solve_zero[OF demo_valid, of "1 / 2"] by blast
  have ok: "object_ok p" "entries_ok p"
    by (rule construct_entries_ok[OF demo_valid demo_fit a(1)])+
  obtain d where d: "populate_data p = Some d"
    using populate_data_ok[OF ok] by simp
  have f: "optimize infeasible_solver p
             = Some (False, p, [Settings, Data, Matrix_P, Matrix_A, Workspace])"
    by (rule optimize_failure[OF d]) (simp_all add: infeasible_solver_def)
  have same: "get_optimization_results p = get_optimization_results p"
    by (rule a(3)[rule_format, OF f])
  have z: "get_optimization_results p
         = (\<lparr>nrows = 4, ncols = 2, coeff = (\<lambda>_. 0)\<rparr>, \<lparr>nrows = 8, ncols = 2, coeff = (\<lambda>_. 0)\<rparr>)"
    using a(2) by (simp add: demo_edges_before)
  show ?thesis using demo_valid a(1) z f by blast
qed

section \<open>The group-1 rows of the \<open>\<lambda>\<close> columns\<close>

text \<open>
  Claim C1, as stated: for every step \<open>i\<close> and obstacle \<open>j\<close> the two group-1 rows of the
  \<open>\<lambda>\<close> columns of \<open>(i, j)\<close> are \<open>R(heading\<^sub>i) A\<^sub>j\<^sup>T\<close> for the planar rotation
  \<open>R(\<theta>) = [[cos \<theta>, -sin \<theta>], [sin \<theta>, cos \<theta>]]\<close>. On the small instance, at step 1
  (heading \<open>pi / 2\<close>), obstacle 0 and edge 1 (normal \<open>(0, 1)\<close>), the assembled entry of the
  first group-1 row is 1, while the first row of \<open>R(pi / 2) A\<^sub>0\<^sup>T\<close> has \<open>-1\<close> there.
\<close>

theorem group1_rows_not_a_rotation:
  "group1_entry (construct 1 (1 / 2) demo_ego demo_edges 2 demo_A demo_b demo_xWS) 1 0 1 0
     = Some 1
   \<and> spec_group1_entry (construct 1 (1 / 2) demo_ego demo_edges 2 demo_A demo_b demo_xWS) 1 0 1 0
     = Some (- 1)
   \<and> group1_entry (construct 1 (1 / 2) demo_ego demo_edges 2 demo_A demo_b demo_xWS) 1 0 1 0
     \<noteq> spec_group1_entry (construct 1 (1 / 2) demo_ego demo_edges 2 demo_A demo_b demo_xWS)
         1 0 1 0"
proof -
  have e: "int 1 < edges_num demo_edges 0" "edges_before demo_edges 0 = 0"
    by (simp_all add: edges_num_def edges_before_def demo_edges_def mat_of_rows_def)
  have c: "coeff demo_xWS (2, Suc 0) = pi / 2" "coeff demo_A (Suc 0, 0) = 0"
      "coeff demo_A (Suc 0, Suc 0) = 1"
    by (simp_all add: demo_xWS_def demo_A_def mat_of_rows_def)
  have "group1_entry (construct 1 (1 / 2) demo_ego demo_edges 2 demo_A demo_b demo_xWS) 1 0 1 0
          = Some 1"
    using group1_entry_valid(1)[OF demo_valid demo_fit _ _ e(1), of 1 "1 / 2"]
    by (simp add: e c)
  moreover have "spec_group1_entry
                   (construct 1 (1 / 2) demo_ego demo_edges 2 demo_A demo_b demo_xWS) 1 0 1 0
                 = Some (- 1)"
    using spec_group1_entry_valid[OF demo_valid _ _ e(1), of 1 "1 / 2"]
    by (simp add: e c)
  ultimately show ?thesis by simp
qed

text \<open>
  Claim C1, amended. For every valid construction input whose entry counts fit in
  \<^verbatim>\<open>int\<close>, every step \<open>i\<close>, every obstacle \<open>j\<close> and every edge \<open>k\<close> of that obstacle, the
  entry of the first group-1 row of \<open>(i, j)\<close> in the column of the \<open>\<lambda>\<close> variable of
  \<open>(i, j, k)\<close> is \<open>cos \<theta> a\<^sub>k\<^sub>0 + sin \<theta> a\<^sub>k\<^sub>1\<close> for the heading \<open>\<theta>\<close> of step \<open>i\<close> and the
  normal \<open>(a\<^sub>k\<^sub>0, a\<^sub>k\<^sub>1)\<close> of the edge: the first row of \<open>R(\<theta>)\<^sup>T A\<^sub>j\<^sup>T\<close>, the block
  \<^verbatim>\<open>R' * A'\<close> of the layout comment, with the rotation transposed.
\<close>

theorem group1_first_row_transposed_rotation:
  assumes "valid_input h ego_arg E N A b x" and "entries_fit h E N"
    and "i \<le> h" and "j < N" and "int k < edges_num E j"
  shows "group1_entry (construct h t ego_arg E N A b x) i j k 0
           = Some (cos (coeff x (2, i)) * coeff A (nat (edges_before E j) + k, 0)
                 + sin (coeff x (2, i)) * coeff A (nat (edges_before E j) + k, 1))
       \<and> group1_entry (construct h t ego_arg E N A b x) i j k 0
           = layout_group1_entry (construct h t ego_arg E N A b x) i j k 0"
  using group1_entry_valid(1)[OF assms] layout_group1_entry_valid[OF assms(1,3,4,5)]
  by simp

theorem group1_first_row_transposed_rotation_witness:
  "valid_input 1 demo_ego demo_edges 2 demo_A demo_b demo_xWS \<and> entries_fit 1 demo_edges 2
   \<and> (1::nat) \<le> 1 \<and> (0::nat) < 2 \<and> int 1 < edges_num demo_edges 0
   \<and> group1_entry (construct 1 (1 / 2) demo_ego demo_edges 2 demo_A demo_b demo_xWS) 1 0 1 0
       = Some 1
   \<and> layout_group1_entry (construct 1 (1 / 2) demo_ego demo_edges 2 demo_A demo_b demo_xWS)
       1 0 1 0 = Some 1"
proof -
  have e: "int 1 < edges_num demo_edges 0" "edges_before demo_edges 0 = 0"
    by (simp_all add: edges_num_def edges_before_def demo_edges_def mat_of_rows_def)
  have c: "coeff demo_xWS (2, Suc 0) = pi / 2" "coeff demo_A (Suc 0, 0) = 0"
      "coeff demo_A (Suc 0, Suc 0) = 1"
    by (simp_all add: demo_xWS_def demo_A_def mat_of_rows_def)
  show ?thesis
    using group1_first_row_transposed_rotation[OF demo_valid demo_fit _ _ e(1), of 1 "1 / 2"]
      demo_valid demo_fit e(1)
    by (auto simp: e(2) c)
qed

section \<open>Where the code departs from the claims\<close>

text \<open>
  Claim C9 states that every exit path of \<^verbatim>\<open>optimize\<close> releases the five structures
  obtained from the allocator. On the small instance, with a solver that reports an
  infeasible problem, the call returns false with all five still allocated; with a solver
  that reports success the same call returns with none.
\<close>

theorem failure_path_keeps_allocations:
  "\<exists>p p'. construct 1 (1 / 2) demo_ego demo_edges 2 demo_A demo_b demo_xWS = Some p
      \<and> optimize infeasible_solver p
          = Some (False, p, [Settings, Data, Matrix_P, Matrix_A, Workspace])
      \<and> optimize counting_solver p = Some (True, p', [])"
proof -
  obtain p where p: "construct 1 (1 / 2) demo_ego demo_edges 2 demo_A demo_b demo_xWS = Some p"
      "object_ok p" "entries_ok p"
    by (rule demo_object)
  obtain d where d: "populate_data p = Some d" "data_n d = num_of_variables p"
    using populate_data_ok[OF p(2,3)] by simp
  have "optimize infeasible_solver p
          = Some (False, p, [Settings, Data, Matrix_P, Matrix_A, Workspace])"
    by (rule optimize_failure[OF d(1)]) (simp_all add: infeasible_solver_def)
  moreover have "\<exists>p'. optimize counting_solver p = Some (True, p', [])"
    using optimize_success[of p d counting_solver, OF p(2) d(1)]
    by (simp add: counting_solver_def d(2))
  ultimately show ?thesis using p(1) by blast
qed

text \<open>
  Claim C2 states that the group-2 entry of the \<open>\<mu>\<close> column of corner \<open>k\<close> is \<open>-g[k]\<close>. On
  the small instance \<open>g = [2, 1, 2, 1]\<close>, and the column of the first \<open>\<mu>\<close> variable (step
  0, obstacle 0, corner 0), which is column 8, holds \<open>+2\<close> in the group-2 row 8.
\<close>

theorem offset_row_miu_entry_positive:
  "\<exists>p M. construct 1 (1 / 2) demo_ego demo_edges 2 demo_A demo_b demo_xWS = Some p
      \<and> assemble_constraint p = Some M
      \<and> g p = [2, 1, 2, 1]
      \<and> csc_column M 8 = [(0, 1), (8, 2), (20, 1)]"
proof -
  obtain p where p: "construct 1 (1 / 2) demo_ego demo_edges 2 demo_A demo_b demo_xWS = Some p"
      "object_ok p" "entries_ok p" "horizon p = 1" "obstacles_num p = 2"
      "obstacles_edges_num p = demo_edges" "obstacles_A p = demo_A"
      "obstacles_b p = demo_b" "xWS p = demo_xWS" "obstacles_edges_sum p = 4"
      "lambda_horizon p = 8" "miu_horizon p = 16" "num_of_variables p = 24"
      "num_of_constraints p = 36" "g p = [2, 1, 2, 1]" "offset p = 1"
    by (rule demo_object)
  have fitA: "int (length (concat (A_cols p))) \<le> int_max"
    using p(3) by (simp add: entries_ok_def)
  have g: "g p = [2, 1, 2, 1]" by (rule p)
  let ?M = "(col_vals (A_cols p), col_rows (A_cols p), col_ptr (A_cols p))"
  have "csc_column ?M (miu_index p 0 0 0) = miu_col p 0 0 0"
    by (rule constraint_column_miu[OF p(2)]) (simp_all add: p)
  then have col: "csc_column ?M 8 = [(0, 1), (8, 2), (20, 1)]"
    by (simp add: miu_index_def miu_col_def p Let_def)
  show ?thesis
    using p(1) g assemble_constraint_ok[OF p(2) fitA] col by blast
qed

end
